theory Spec2Isabelle
  imports Complex_Main "HOL-Library.Sublist"
begin

section \<open>Data model of the graph solver (ViconGraphSolver.cpp)\<close>

text \<open>
  The value of a double is a \<open>real\<close> (no NaN). Where the source compares a computed
  double with \<open>==\<close> or writes it to the file (the difference of line 370, the product of
  line 215), the machine operation is a function of the environment, so that its rounding
  is whatever the machine does; the sum of a camera time and the time offset (line 300)
  and the shifts by one second (lines 304-305) are taken without rounding. Fixed-size
  Eigen vectors are tuples of reals; larger Eigen matrices (rotation matrices, covariances,
  Jacobians) stay abstract in the type parameter \<open>'m\<close>, and the two NaN tests the source
  makes on them are functions of the environment.
\<close>

type_synonym vec3 = "real \<times> real \<times> real"

text \<open>A JPL quaternion \<open>(q0, q1, q2, q3)\<close>: the scalar part is component 3.\<close>

type_synonym quat = "real \<times> real \<times> real \<times> real"

datatype key = X nat | C nat | G nat | T nat

record JPLNavState =
  nav_q :: quat
  nav_bg :: vec3
  nav_v :: vec3
  nav_ba :: vec3
  nav_p :: vec3

datatype 'm val = Rot3 'm | Vector3 vec3 | Vector1 real | NavState JPLNavState

type_synonym 'm valmap = "key \<Rightarrow> 'm val option"

datatype error =
    EXIT_FAILURE
  | AssertionFailed string
  | OutOfRange
  | SignedOverflow
  | ValuesKeyAlreadyExists key
  | ValuesKeyDoesNotExist key
  | ValuesIncorrectType key

datatype log_line = ROS_INFO string | ROS_ERROR string

record 'm CpiV1 =
  DT :: real
  P_meas :: 'm
  alpha_tau :: vec3
  beta_tau :: vec3
  q_k2tau :: quat
  b_a_lin :: vec3
  b_w_lin :: vec3
  J_q :: 'm
  J_b :: 'm
  J_a :: 'm
  H_b :: 'm
  H_a :: 'm

text \<open>
  The factors the builder adds, with the constructor arguments of the source in the
  source's order. \<open>PriorFactor k mean sigma\<close>; \<open>MagnitudePrior k sigma magnitude\<close>;
  \<open>ViconPoseFactor x c0 c1 R_vicon q_VtoB p_BinV\<close>;
  \<open>ViconPoseTimeoffsetFactor x c0 c1 t timestamp\<close> (it also holds the interpolator);
  \<open>ImuFactorCPIv1 x0 x1 g P_meas DT alpha_tau beta_tau q_k2tau b_a_lin b_w_lin J_q J_b J_a H_b H_a\<close>.
\<close>

datatype 'm factor =
    PriorFactor key real real
  | MagnitudePrior key real real
  | ViconPoseFactor key key key 'm quat vec3
  | ViconPoseTimeoffsetFactor key key key key real
  | ImuFactorCPIv1 key key key 'm real vec3 vec3 quat vec3 vec3 'm 'm 'm 'm 'm

text \<open>
  The collaborators of the solver and the helpers of its headers, none of which is part
  of ViconGraphSolver.cpp: the Propagator, the Interpolator (a query returns the pose
  and its covariance, or nothing), the Levenberg-Marquardt optimizer, the stop signal
  \<open>ros::ok()\<close> (a function of the number of earlier polls), Eigen's NaN tests and the
  quaternion helpers. The last two fields are the machine's arithmetic on doubles where a
  result is compared or written out: \<open>double_minus a b\<close> is the double that \<open>a - b\<close> yields
  (line 370) and \<open>double_times a b\<close> the double that \<open>a * b\<close> yields (line 215), both
  rounded as the machine rounds them.
\<close>

record 'm collab =
  has_bounding_imu :: "real \<Rightarrow> bool"
  propagate :: "real \<Rightarrow> real \<Rightarrow> vec3 \<Rightarrow> vec3 \<Rightarrow> bool \<times> 'm CpiV1"
  get_pose :: "real \<Rightarrow> (quat \<times> vec3 \<times> 'm) option"
  optimize :: "'m factor list \<Rightarrow> 'm valmap \<Rightarrow> 'm valmap"
  ros_ok :: "nat \<Rightarrow> bool"
  isnan_norm :: "'m \<Rightarrow> bool"
  isnan_inverse_norm :: "'m \<Rightarrow> bool"
  rot_2_quat :: "'m \<Rightarrow> quat"
  quat_2_Rot :: "quat \<Rightarrow> 'm"
  quat_multiply :: "quat \<Rightarrow> quat \<Rightarrow> quat"
  quat_Inv :: "quat \<Rightarrow> quat"
  mat_transpose :: "'m \<Rightarrow> 'm"
  mat_mul :: "'m \<Rightarrow> 'm \<Rightarrow> 'm"
  mat_vec :: "'m \<Rightarrow> vec3 \<Rightarrow> vec3"
  double_minus :: "real \<Rightarrow> real \<Rightarrow> real"
  double_times :: "real \<Rightarrow> real \<Rightarrow> real"

text \<open>The configuration read by the constructor.\<close>

record 'm config =
  init_grav_inV :: vec3
  init_R_BtoI :: 'm
  init_p_BinI :: vec3
  init_toff_imu_to_vicon :: real
  enforce_grav_mag :: bool
  estimate_toff_vicon_to_imu :: bool
  num_loop_relin :: int

text \<open>
  The mutable members of the solver. \<open>values_est\<close> is the member \<open>values\<close> of the
  source, \<open>ros_log\<close> collects the format strings of the ROS_INFO and ROS_ERROR calls in
  order (their arguments are not rendered), \<open>ok_polls\<close> counts the calls of
  \<open>ros::ok()\<close>.
\<close>

record 'm solver =
  timestamp_cameras :: "real list"
  map_states :: "real \<Rightarrow> nat option"
  values_est :: "'m valmap"
  values_result :: "'m valmap"
  graph :: "'m factor list"
  ros_log :: "log_line list"
  ok_polls :: nat

text \<open>
  A call either ends abruptly (process exit, failed assertion, uncaught exception),
  leaving the error and what was logged until then, or returns the new solver state.
\<close>

type_synonym 'm outcome = "(error \<times> log_line list) + 'm solver"

section \<open>Library operations the source relies on\<close>

definition throw :: "error \<Rightarrow> 'm solver \<Rightarrow> 'm outcome" where
  "throw e s = Inl (e, ros_log s)"

definition info :: "string \<Rightarrow> 'm solver \<Rightarrow> 'm solver" where
  "info msg s = s\<lparr>ros_log := ros_log s @ [ROS_INFO msg]\<rparr>"

definition err :: "string \<Rightarrow> 'm solver \<Rightarrow> 'm solver" where
  "err msg s = s\<lparr>ros_log := ros_log s @ [ROS_ERROR msg]\<rparr>"

text \<open>gtsam::Values: insert throws on a key that exists, at on a missing key or another type.\<close>

definition values_insert :: "key \<Rightarrow> 'm val \<Rightarrow> 'm valmap \<Rightarrow> error + 'm valmap" where
  "values_insert k v vs =
     (case vs k of None \<Rightarrow> Inr (vs(k \<mapsto> v)) | Some u \<Rightarrow> Inl (ValuesKeyAlreadyExists k))"

definition at_Rot3 :: "'m valmap \<Rightarrow> key \<Rightarrow> error + 'm" where
  "at_Rot3 vs k =
     (case vs k of None \<Rightarrow> Inl (ValuesKeyDoesNotExist k)
      | Some (Rot3 r) \<Rightarrow> Inr r
      | Some u \<Rightarrow> Inl (ValuesIncorrectType k))"

definition at_Vector3 :: "'m valmap \<Rightarrow> key \<Rightarrow> error + vec3" where
  "at_Vector3 vs k =
     (case vs k of None \<Rightarrow> Inl (ValuesKeyDoesNotExist k)
      | Some (Vector3 x) \<Rightarrow> Inr x
      | Some u \<Rightarrow> Inl (ValuesIncorrectType k))"

definition at_Vector1 :: "'m valmap \<Rightarrow> key \<Rightarrow> error + real" where
  "at_Vector1 vs k =
     (case vs k of None \<Rightarrow> Inl (ValuesKeyDoesNotExist k)
      | Some (Vector1 x) \<Rightarrow> Inr x
      | Some u \<Rightarrow> Inl (ValuesIncorrectType k))"

definition at_JPLNavState :: "'m valmap \<Rightarrow> key \<Rightarrow> error + JPLNavState" where
  "at_JPLNavState vs k =
     (case vs k of None \<Rightarrow> Inl (ValuesKeyDoesNotExist k)
      | Some (NavState x) \<Rightarrow> Inr x
      | Some u \<Rightarrow> Inl (ValuesIncorrectType k))"

text \<open>\<open>map_states[t]\<close>: std::map::operator[] inserts the default 0 for a missing key.\<close>

definition map_states_at :: "real \<Rightarrow> 'm solver \<Rightarrow> nat \<times> 'm solver" where
  "map_states_at t s =
     (case map_states s t of
        Some i \<Rightarrow> (i, s)
      | None \<Rightarrow> (0, s\<lparr>map_states := (map_states s)(t \<mapsto> 0)\<rparr>))"

definition graph_add :: "'m factor \<Rightarrow> 'm solver \<Rightarrow> 'm solver" where
  "graph_add f s = s\<lparr>graph := graph s @ [f]\<rparr>"

definition vec3_norm :: "vec3 \<Rightarrow> real" where
  "vec3_norm a = (case a of (x, y, z) \<Rightarrow> sqrt (x * x + y * y + z * z))"

definition vec3_minus :: "vec3 \<Rightarrow> vec3 \<Rightarrow> vec3" where
  "vec3_minus a b = (case a of (x, y, z) \<Rightarrow> case b of (u, v, w) \<Rightarrow> (x - u, y - v, z - w))"

section \<open>build_problem (lines 248-396)\<close>

text \<open>Lines 257-288: the calibration nodes and the two priors.\<close>

definition init_calibration :: "'m config \<Rightarrow> bool \<Rightarrow> 'm solver \<Rightarrow> 'm outcome" where
  "init_calibration cfg init_states s =
     (if init_states then
        (case values_insert (C 0) (Rot3 (init_R_BtoI cfg)) (values_est s) of
           Inl e \<Rightarrow> throw e s
         | Inr v1 \<Rightarrow>
        (case values_insert (C 1) (Vector3 (init_p_BinI cfg)) v1 of
           Inl e \<Rightarrow> throw e s
         | Inr v2 \<Rightarrow>
        (case values_insert (G 0) (Vector3 (init_grav_inV cfg)) v2 of
           Inl e \<Rightarrow> throw e s
         | Inr v3 \<Rightarrow> Inr (s\<lparr>values_est := v3\<rparr>))))
      else Inr s)"

definition timeoffset_logic :: "'m config \<Rightarrow> bool \<Rightarrow> 'm solver \<Rightarrow> 'm outcome" where
  "timeoffset_logic cfg init_states s =
     (if estimate_toff_vicon_to_imu cfg then
        (case (if init_states
               then values_insert (T 0) (Vector1 (init_toff_imu_to_vicon cfg)) (values_est s)
               else Inr (values_est s)) of
           Inl e \<Rightarrow> throw e s
         | Inr v1 \<Rightarrow>
        (case at_Vector1 v1 (T 0) of
           Inl e \<Rightarrow> throw e s
         | Inr toff \<Rightarrow>
             Inr (info ''[BUILD]: current time offset is %.4f''
                   (graph_add (PriorFactor (T 0) toff (2 / 100)) (s\<lparr>values_est := v1\<rparr>)))))
      else Inr s)"

definition gravity_logic :: "'m config \<Rightarrow> 'm solver \<Rightarrow> 'm outcome" where
  "gravity_logic cfg s =
     (if enforce_grav_mag cfg then
        Inr (graph_add (MagnitudePrior (G 0) (1 / 10 ^ 10) (vec3_norm (init_grav_inV cfg))) s)
      else
        (case at_Vector3 (values_est s) (G 0) of
           Inl e \<Rightarrow> throw e s
         | Inr g \<Rightarrow> Inr (info ''[BUILD]: current gravity mag is %.4f'' s)))"

text \<open>Line 300: the time at which the interpolator is asked.\<close>

definition corrected_time :: "'m config \<Rightarrow> 'm valmap \<Rightarrow> real \<Rightarrow> error + real" where
  "corrected_time cfg vs timestamp =
     (if estimate_toff_vicon_to_imu cfg then
        (case at_Vector1 vs (T 0) of
           Inl e \<Rightarrow> Inl e
         | Inr toff \<Rightarrow> Inr (timestamp + toff))
      else Inr (timestamp + init_toff_imu_to_vicon cfg))"

text \<open>
  Lines 303-311: three queries write the same three output variables; when all three
  are available the variables hold what the last call wrote.
\<close>

definition lookup_vicon :: "'m collab \<Rightarrow> real \<Rightarrow> (quat \<times> vec3 \<times> 'm) option" where
  "lookup_vicon env timestamp_corrected =
     (let has_vicon1 = get_pose env (timestamp_corrected - 1);
          has_vicon2 = get_pose env (timestamp_corrected + 1);
          has_vicon3 = get_pose env timestamp_corrected
      in if has_vicon1 = None \<or> has_vicon2 = None \<or> has_vicon3 = None then None
         else has_vicon3)"

text \<open>Lines 312-317 and 322-327: log, erase the state if it is there, erase the timestamp.\<close>

definition skip_timestamp :: "string \<Rightarrow> real \<Rightarrow> 'm solver \<Rightarrow> 'm solver" where
  "skip_timestamp msg timestamp s =
     (case map_states_at timestamp (info msg s) of
        (i, s1) \<Rightarrow>
          if values_est s1 (X i) \<noteq> None
          then s1\<lparr>values_est := (values_est s1)((X i) := None)\<rparr>
          else s1)"

text \<open>Lines 331-339: the initial state of the IMU.\<close>

definition initial_imu_state :: "'m collab \<Rightarrow> 'm config \<Rightarrow> quat \<Rightarrow> vec3 \<Rightarrow> JPLNavState" where
  "initial_imu_state env cfg q_VtoB p_BinV =
     (let q_VtoI = quat_multiply env (rot_2_quat env (init_R_BtoI cfg)) q_VtoB;
          p_IinV = vec3_minus p_BinV
            (mat_vec env
               (mat_mul env (quat_2_Rot env (quat_Inv env q_VtoB)) (mat_transpose env (init_R_BtoI cfg)))
               (init_p_BinI cfg))
      in \<lparr>nav_q = q_VtoI, nav_bg = (0, 0, 0), nav_v = (0, 0, 0), nav_ba = (0, 0, 0),
          nav_p = p_IinV\<rparr>)"

definition insert_imu_state ::
  "'m collab \<Rightarrow> 'm config \<Rightarrow> bool \<Rightarrow> real \<Rightarrow> quat \<Rightarrow> vec3 \<Rightarrow> 'm solver \<Rightarrow> 'm outcome" where
  "insert_imu_state env cfg init_states timestamp q_VtoB p_BinV s =
     (if init_states then
        (case map_states_at timestamp s of
           (i, s1) \<Rightarrow>
             (case values_insert (X i) (NavState (initial_imu_state env cfg q_VtoB p_BinV))
                     (values_est s1) of
                Inl e \<Rightarrow> throw e s1
              | Inr v1 \<Rightarrow> Inr (s1\<lparr>values_est := v1\<rparr>)))
      else Inr s)"

text \<open>Lines 342-348: the vicon measurement of this pose.\<close>

definition add_vicon_factor ::
  "'m config \<Rightarrow> real \<Rightarrow> quat \<Rightarrow> vec3 \<Rightarrow> 'm \<Rightarrow> 'm solver \<Rightarrow> 'm solver" where
  "add_vicon_factor cfg timestamp q_VtoB p_BinV R_vicon s =
     (case map_states_at timestamp s of
        (i, s1) \<Rightarrow>
          if \<not> estimate_toff_vicon_to_imu cfg
          then graph_add (ViconPoseFactor (X i) (C 0) (C 1) R_vicon q_VtoB p_BinV) s1
          else graph_add (ViconPoseTimeoffsetFactor (X i) (C 0) (C 1) (T 0) timestamp) s1)"

text \<open>Lines 359-386: the preintegration between the previous state and this one.\<close>

definition add_preintegration :: "'m collab \<Rightarrow> real \<Rightarrow> real \<Rightarrow> 'm solver \<Rightarrow> 'm outcome" where
  "add_preintegration env time0 time1 s =
     (case map_states_at time0 s of
        (i0, s1) \<Rightarrow>
          (case at_JPLNavState (values_est s1) (X i0) of
             Inl e \<Rightarrow> throw e s1
           | Inr state0 \<Rightarrow>
               (case propagate env time0 time1 (nav_bg state0) (nav_ba state0) of
                  (has_imu, preint) \<Rightarrow>
                    if \<not> has_imu then throw (AssertionFailed ''has_imu'') s1
                    else if DT preint \<noteq> double_minus env time1 time0
                    then throw (AssertionFailed ''preint.DT==(time1-time0)'') s1
                    else
                      (let s2 = (if isnan_norm env (P_meas preint)
                                    \<or> isnan_inverse_norm env (P_meas preint)
                                 then err ''THIS SHOULD NEVER HAPPEN!@#!@#!@#!@#!#@''
                                        (err ''R_imu is NAN | R.norm = %.3f | Rinv.norm = %.3f'' s1)
                                 else s1)
                       in case map_states_at time1 s2 of
                            (i1, s3) \<Rightarrow>
                              Inr (graph_add
                                     (ImuFactorCPIv1 (X i0) (X i1) (G 0) (P_meas preint) (DT preint)
                                        (alpha_tau preint) (beta_tau preint) (q_k2tau preint)
                                        (b_a_lin preint) (b_w_lin preint) (J_q preint) (J_b preint)
                                        (J_a preint) (H_b preint) (H_a preint))
                                     s3)))))"

text \<open>
  Lines 291-391, the loop over the camera times. The iterator \<open>it1\<close> is the split of the
  vector into the elements before it (\<open>before\<close>) and those from it on: \<open>it1 == begin()\<close> is
  \<open>before = []\<close>, \<open>*(it1-1)\<close> is \<open>last before\<close>, \<open>erase(it1)\<close> drops the head of the rest,
  \<open>it1++\<close> moves the head to the end of \<open>before\<close>.
\<close>

fun build_loop ::
  "'m collab \<Rightarrow> 'm config \<Rightarrow> bool \<Rightarrow> real list \<Rightarrow> real list \<Rightarrow> 'm solver \<Rightarrow> 'm outcome" where
  "build_loop env cfg init_states before [] s = Inr (s\<lparr>timestamp_cameras := before\<rparr>)"
| "build_loop env cfg init_states before (timestamp # rest) s =
     (if \<not> ros_ok env (ok_polls s)
      then Inr (s\<lparr>ok_polls := Suc (ok_polls s), timestamp_cameras := before @ timestamp # rest\<rparr>)
      else
        (let s0 = s\<lparr>ok_polls := Suc (ok_polls s)\<rparr> in
         case corrected_time cfg (values_est s0) timestamp of
           Inl e \<Rightarrow> throw e s0
         | Inr timestamp_corrected \<Rightarrow>
             (case lookup_vicon env timestamp_corrected of
                None \<Rightarrow>
                  build_loop env cfg init_states before rest
                    (skip_timestamp ''    - skipping camera time %.9f (no vicon pose found)''
                       timestamp s0)
              | Some (q_VtoB, p_BinV, R_vicon) \<Rightarrow>
                  if isnan_norm env R_vicon \<or> isnan_inverse_norm env R_vicon
                  then build_loop env cfg init_states before rest
                         (skip_timestamp
                            ''    - skipping camera time %.9f (R.norm = %.3f | Rinv.norm = %.3f)''
                            timestamp s0)
                  else
                    (case insert_imu_state env cfg init_states timestamp q_VtoB p_BinV s0 of
                       Inl e \<Rightarrow> Inl e
                     | Inr s1 \<Rightarrow>
                         (let s2 = add_vicon_factor cfg timestamp q_VtoB p_BinV R_vicon s1 in
                          if before = []
                          then build_loop env cfg init_states (before @ [timestamp]) rest s2
                          else
                            (case add_preintegration env (last before) timestamp s2 of
                               Inl e \<Rightarrow> Inl e
                             | Inr s3 \<Rightarrow>
                                 build_loop env cfg init_states (before @ [timestamp]) rest
                                   s3))))))"

definition build_problem :: "'m collab \<Rightarrow> 'm config \<Rightarrow> bool \<Rightarrow> 'm solver \<Rightarrow> 'm outcome" where
  "build_problem env cfg init_states s =
     (let s0 = (info ''[BUILD]: building the graph (might take a while)'' s)\<lparr>graph := []\<rparr> in
      case init_calibration cfg init_states s0 of
        Inl e \<Rightarrow> Inl e
      | Inr s1 \<Rightarrow>
          (case timeoffset_logic cfg init_states s1 of
             Inl e \<Rightarrow> Inl e
           | Inr s2 \<Rightarrow>
               (case gravity_logic cfg s2 of
                  Inl e \<Rightarrow> Inl e
                | Inr s3 \<Rightarrow> build_loop env cfg init_states [] (timestamp_cameras s3) s3)))"

section \<open>optimize_problem (lines 405-435)\<close>

definition optimize_problem :: "'m collab \<Rightarrow> 'm solver \<Rightarrow> 'm solver" where
  "optimize_problem env s =
     (let s1 = info ''[VICON-GRAPH]: begin optimization''
                 (info ''[VICON-GRAPH]: graph nodes - %d''
                    (info ''[VICON-GRAPH]: graph factors - %d'' s));
          s2 = s1\<lparr>values_result := optimize env (graph s1) (values_est s1)\<rparr>
      in info ''[VICON-GRAPH]: done optimization (%d iterations)!'' s2)"

section \<open>build_and_solve (lines 97-173)\<close>

text \<open>Lines 109-117: delete the camera times without bounding IMU readings.\<close>

fun clean_loop :: "'m collab \<Rightarrow> real list \<Rightarrow> real list \<Rightarrow> 'm solver \<Rightarrow> 'm solver" where
  "clean_loop env before [] s = s\<lparr>timestamp_cameras := before\<rparr>"
| "clean_loop env before (t # rest) s =
     (if \<not> has_bounding_imu env t
      then clean_loop env before rest (info ''    - deleted cam time %.9f'' s)
      else clean_loop env (before @ [t]) rest s)"

text \<open>Lines 132-134: \<open>map_states.insert\<close> keeps the entry of a key that is already there.\<close>

fun index_loop :: "real list \<Rightarrow> nat \<Rightarrow> (real \<Rightarrow> nat option) \<Rightarrow> (real \<Rightarrow> nat option)" where
  "index_loop [] i m = m"
| "index_loop (t # ts) i m =
     index_loop ts (Suc i) (case m t of None \<Rightarrow> m(t \<mapsto> i) | Some j \<Rightarrow> m)"

text \<open>Lines 140-155: one pass of the loop body, with \<open>init_states\<close> the value of \<open>i==0\<close>.\<close>

definition relin_round :: "'m collab \<Rightarrow> 'm config \<Rightarrow> bool \<Rightarrow> 'm solver \<Rightarrow> 'm outcome" where
  "relin_round env cfg init_states s =
     (case build_problem env cfg init_states s of
        Inl e \<Rightarrow> Inl e
      | Inr s1 \<Rightarrow>
          (let s2 = optimize_problem env s1;
               s3 = s2\<lparr>values_est := values_result s2\<rparr>
           in case (if estimate_toff_vicon_to_imu cfg
                    then (case at_Vector1 (values_est s3) (T 0) of
                            Inl e \<Rightarrow> throw e s3
                          | Inr toff \<Rightarrow> Inr (info ''current t_off = %.3f'' s3))
                    else Inr s3) of
                Inl e \<Rightarrow> Inl e
              | Inr s4 \<Rightarrow>
                  Inr (info ''[TIME]: %.4f total (loop %d)''
                        (info ''[TIME]: %.4f to optimize''
                           (info ''[TIME]: %.4f to build'' s4)))))"

text \<open>
  Lines 138-157. The counter is a C int: incrementing it at \<open>INT_MAX\<close> is undefined
  behaviour, which the model makes an abrupt end.
\<close>

function relin_loop :: "'m collab \<Rightarrow> 'm config \<Rightarrow> int \<Rightarrow> 'm solver \<Rightarrow> 'm outcome" where
  "relin_loop env cfg i s =
     (if i \<le> num_loop_relin cfg then
        (case relin_round env cfg (i = 0) s of
           Inl e \<Rightarrow> Inl e
         | Inr s1 \<Rightarrow>
             if i = 2147483647 then throw SignedOverflow s1
             else relin_loop env cfg (i + 1) s1)
      else Inr s)"
  by pat_completeness auto
termination
  by (relation "measure (\<lambda>(env, cfg, i, s). nat (num_loop_relin cfg + 1 - i))") auto

text \<open>Lines 162-168: the values read by the debug print (each read may throw).\<close>

definition debug_print :: "'m config \<Rightarrow> 'm solver \<Rightarrow> 'm outcome" where
  "debug_print cfg s =
     (case timestamp_cameras s of
        [] \<Rightarrow> throw OutOfRange s
      | t0 # ts \<Rightarrow>
          (case map_states_at t0 s of
             (i0, s1) \<Rightarrow>
               (case at_JPLNavState (values_result s1) (X i0) of
                  Inl e \<Rightarrow> throw e s1
                | Inr state_0 \<Rightarrow>
                    (case map_states_at (last (timestamp_cameras s1)) s1 of
                       (iN, s2) \<Rightarrow>
                         (case at_JPLNavState (values_result s2) (X iN) of
                            Inl e \<Rightarrow> throw e s2
                          | Inr state_N \<Rightarrow>
                         (case at_Rot3 (values_result s2) (C 0) of
                            Inl e \<Rightarrow> throw e s2
                          | Inr r \<Rightarrow>
                         (case at_Vector3 (values_result s2) (C 1) of
                            Inl e \<Rightarrow> throw e s2
                          | Inr p \<Rightarrow>
                         (case at_Vector3 (values_result s2) (G 0) of
                            Inl e \<Rightarrow> throw e s2
                          | Inr g \<Rightarrow>
                              if estimate_toff_vicon_to_imu cfg
                              then (case at_Vector1 (values_result s2) (T 0) of
                                      Inl e \<Rightarrow> throw e s2
                                    | Inr toff \<Rightarrow> Inr s2)
                              else Inr s2))))))))"

definition build_and_solve :: "'m collab \<Rightarrow> 'm config \<Rightarrow> 'm solver \<Rightarrow> 'm outcome" where
  "build_and_solve env cfg s =
     (if timestamp_cameras s = [] then
        throw EXIT_FAILURE
          (err ''%s on line %d''
             (err ''[VICON-GRAPH]: Make sure your camera topic is correct...''
                (err ''[VICON-GRAPH]: Camera timestamp vector empty!!!!'' s)))
      else
        (let s1 = clean_loop env [] (timestamp_cameras s) (info ''cleaning camera timestamps'' s) in
         if timestamp_cameras s1 = [] then
           throw EXIT_FAILURE
             (err ''%s on line %d''
                (err ''[VICON-GRAPH]: Make sure your camera and imu topics are correct...''
                   (err ''[VICON-GRAPH]: All camera timestamps where out of the range of the IMU measurements.''
                      s1)))
         else
           (let s2 = s1\<lparr>map_states := Map.empty, values_est := Map.empty\<rparr>;
                s3 = s2\<lparr>map_states := index_loop (timestamp_cameras s2) 0 (map_states s2)\<rparr>
            in case relin_loop env cfg 0 s3 of
                 Inl e \<Rightarrow> Inl e
               | Inr s4 \<Rightarrow> debug_print cfg s4)))"

section \<open>write_to_file, the state table (lines 204-223)\<close>

text \<open>
  A field of the table is a double written by \<open>operator<<\<close>: the precision in force
  (\<open>std::setprecision\<close>) and the double. A row is the time field, written at precision
  20, which holds \<open>std::floor\<close> of the double product \<open>1e9*t\<close>, and the sixteen fields that
  follow it at precision 6, in the order written.
\<close>

type_synonym csv_field = "nat \<times> real"

type_synonym csv_row = "csv_field \<times> csv_field list"

definition state_row :: "'m collab \<Rightarrow> real \<Rightarrow> JPLNavState \<Rightarrow> csv_row" where
  "state_row env t state =
     (case nav_p state of (p0, p1, p2) \<Rightarrow>
      case nav_q state of (q0, q1, q2, q3) \<Rightarrow>
      case nav_v state of (v0, v1, v2) \<Rightarrow>
      case nav_bg state of (bg0, bg1, bg2) \<Rightarrow>
      case nav_ba state of (ba0, ba1, ba2) \<Rightarrow>
        ((20, of_int \<lfloor>double_times env 1000000000 t\<rfloor>),
         map (Pair 6)
           [p0, p1, p2, q3, q0, q1, q2, v0, v1, v2, bg0, bg1, bg2, ba0, ba1, ba2]))"

text \<open>
  The loop of lines 210-222 over the positions of \<open>timestamp_cameras\<close>: the rows written,
  the exception that ended the loop if one did, and the solver afterwards. The file
  system (removing an old file, creating directories, the log lines about them) and the
  info file written after the table are left out.
\<close>

fun write_states ::
  "'m collab \<Rightarrow> real list \<Rightarrow> csv_row list \<Rightarrow> 'm solver \<Rightarrow>
   csv_row list \<times> error option \<times> 'm solver" where
  "write_states env [] rows s = (rows, None, s)"
| "write_states env (t # ts) rows s =
     (case map_states_at t s of
        (i, s1) \<Rightarrow>
          (case at_JPLNavState (values_result s1) (X i) of
             Inl e \<Rightarrow> (rows, Some e, s1)
           | Inr state \<Rightarrow> write_states env ts (rows @ [state_row env t state]) s1))"

definition write_to_file_states ::
  "'m collab \<Rightarrow> 'm solver \<Rightarrow> csv_row list \<times> error option \<times> 'm solver" where
  "write_to_file_states env s =
     write_states env (timestamp_cameras s) [] (info ''saving states and info to file'' s)"

section \<open>Notions used in the statements\<close>

text \<open>The errors that are uncaught C++ exceptions.\<close>

fun is_exception :: "error \<Rightarrow> bool" where
  "is_exception (ValuesKeyAlreadyExists k) = True"
| "is_exception (ValuesKeyDoesNotExist k) = True"
| "is_exception (ValuesIncorrectType k) = True"
| "is_exception OutOfRange = True"
| "is_exception e = False"

text \<open>The keys a factor connects.\<close>

fun factor_keys :: "'m factor \<Rightarrow> key list" where
  "factor_keys (PriorFactor k m sg) = [k]"
| "factor_keys (MagnitudePrior k sg m) = [k]"
| "factor_keys (ViconPoseFactor x c0 c1 R qq pp) = [x, c0, c1]"
| "factor_keys (ViconPoseTimeoffsetFactor x c0 c1 t ts) = [x, c0, c1, t]"
| "factor_keys (ImuFactorCPIv1 x0 x1 g P dt a b qq ba bw jq jb ja hb ha) = [x0, x1, g]"

text \<open>
  A corrected time is rejected when one of the three queries fails or the covariance of
  the pose at the corrected time is NaN or has a NaN inverse.
\<close>

definition pose_rejected :: "'m collab \<Rightarrow> real \<Rightarrow> bool" where
  "pose_rejected env tc =
     (get_pose env (tc - 1) = None \<or> get_pose env (tc + 1) = None \<or>
      (case get_pose env tc of
         None \<Rightarrow> True
       | Some (qq, pp, R) \<Rightarrow> isnan_norm env R \<or> isnan_inverse_norm env R))"

text \<open>Every state key of the graph is the index of some camera time.\<close>

definition states_indexed :: "'m solver \<Rightarrow> bool" where
  "states_indexed s =
     (\<forall>f\<in>set (graph s). \<forall>i. X i \<in> set (factor_keys f) \<longrightarrow> (\<exists>t. map_states s t = Some i))"

text \<open>The index that \<open>map_states[t]\<close> yields: the stored one, or the default 0.\<close>

definition state_index :: "'m solver \<Rightarrow> real \<Rightarrow> nat" where
  "state_index s t = (case map_states s t of Some i \<Rightarrow> i | None \<Rightarrow> 0)"

text \<open>The prior factors on a vector value (the time-offset prior is the only one built).\<close>

fun is_prior :: "'m factor \<Rightarrow> bool" where
  "is_prior (PriorFactor k m sg) = True"
| "is_prior f = False"

text \<open>
  The relinearization loop in the words of the specification: one build, solve and adopt
  cycle per flag, in order, stopping at the first abrupt end.
\<close>

fun run_rounds :: "'m collab \<Rightarrow> 'm config \<Rightarrow> bool list \<Rightarrow> 'm solver \<Rightarrow> 'm outcome" where
  "run_rounds env cfg [] s = Inr s"
| "run_rounds env cfg (init_states # flags) s =
     (case relin_round env cfg init_states s of
        Inl e \<Rightarrow> Inl e
      | Inr s1 \<Rightarrow> run_rounds env cfg flags s1)"

text \<open>The inertial factor as line 384 builds it from the fields of the preintegration.\<close>

definition imu_factor :: "nat \<Rightarrow> nat \<Rightarrow> 'm CpiV1 \<Rightarrow> 'm factor" where
  "imu_factor i0 i1 preint =
     ImuFactorCPIv1 (X i0) (X i1) (G 0) (P_meas preint) (DT preint) (alpha_tau preint)
       (beta_tau preint) (q_k2tau preint) (b_a_lin preint) (b_w_lin preint) (J_q preint)
       (J_b preint) (J_a preint) (H_b preint) (H_a preint)"

text \<open>
  The time offset a build pass adds to every camera time (line 300): the current value of
  \<open>T 0\<close> when the offset is estimated and was not just initialised, else the configured one.
\<close>

definition offset_in_force :: "'m config \<Rightarrow> bool \<Rightarrow> 'm valmap \<Rightarrow> real" where
  "offset_in_force cfg init_states vs =
     (if estimate_toff_vicon_to_imu cfg \<and> \<not> init_states
      then (case vs (T 0) of Some (Vector1 x) \<Rightarrow> x | _ \<Rightarrow> 0)
      else init_toff_imu_to_vicon cfg)"

text \<open>
  The biases with which line 365 asks the Propagator when the state of key \<open>k\<close> is the
  earlier one of a pair: on an initialising pass the zero biases of the state seeded at
  lines 334-336, else the biases of the state that the current estimate \<open>vs\<close> holds under
  \<open>k\<close> when the pass begins.
\<close>

definition entry_bias :: "bool \<Rightarrow> 'm valmap \<Rightarrow> key \<Rightarrow> (vec3 \<times> vec3) option" where
  "entry_bias init_states vs k =
     (if init_states then Some ((0, 0, 0), (0, 0, 0))
      else (case vs k of
              Some (NavState st) \<Rightarrow> Some (nav_bg st, nav_ba st)
            | _ \<Rightarrow> None))"

text \<open>
  The contract asserted at lines 369-370 for one request: the Propagator reports success
  and the duration it returns is the double \<open>time1-time0\<close>.
\<close>

definition contract_met :: "'m collab \<Rightarrow> real \<Rightarrow> real \<Rightarrow> vec3 \<Rightarrow> vec3 \<Rightarrow> bool" where
  "contract_met env t0 t1 bg ba =
     (fst (propagate env t0 t1 bg ba) \<and>
      DT (snd (propagate env t0 t1 bg ba)) = double_minus env t1 t0)"

text \<open>The inertial factors of a graph.\<close>

fun is_imu :: "'m factor \<Rightarrow> bool" where
  "is_imu (ImuFactorCPIv1 x0 x1 g P dt a b qq ba bw jq jb ja hb ha) = True"
| "is_imu f = False"

section \<open>A small scenario\<close>

text \<open>
  Matrices are numbered: covariance 1 has a NaN norm, covariance 2 a NaN inverse. IMU
  readings bound the times from 0 on; vicon poses exist on the interval from -1 to 10,
  and the pose at time 7 has covariance 2. The optimizer returns its initial values, and
  the differences and products of the few doubles used are exact.
\<close>

definition demo_preint :: "real \<Rightarrow> nat \<Rightarrow> nat CpiV1" where
  "demo_preint dt P = \<lparr>DT = dt, P_meas = P, alpha_tau = (0, 0, 0), beta_tau = (0, 0, 0),
     q_k2tau = (0, 0, 0, 1), b_a_lin = (0, 0, 0), b_w_lin = (0, 0, 0),
     J_q = 0, J_b = 0, J_a = 0, H_b = 0, H_a = 0\<rparr>"

definition demo_env :: "nat collab" where
  "demo_env = \<lparr>has_bounding_imu = (\<lambda>t. 0 \<le> t),
     propagate = (\<lambda>t0 t1 bg ba. (True, demo_preint (t1 - t0) 0)),
     get_pose = (\<lambda>t. if - 1 \<le> t \<and> t \<le> 10
                      then Some ((0, 0, 0, 1), (t, 0, 0), if t = 7 then 2 else 0) else None),
     optimize = (\<lambda>g v. v),
     ros_ok = (\<lambda>n. True),
     isnan_norm = (\<lambda>m. m = 1),
     isnan_inverse_norm = (\<lambda>m. m = 2),
     rot_2_quat = (\<lambda>m. (0, 0, 0, 1)),
     quat_2_Rot = (\<lambda>q. 0),
     quat_multiply = (\<lambda>a b. b),
     quat_Inv = (\<lambda>q. q),
     mat_transpose = (\<lambda>m. m),
     mat_mul = (\<lambda>a b. a),
     mat_vec = (\<lambda>m v. v),
     double_minus = (\<lambda>a b. a - b),
     double_times = (\<lambda>a b. a * b)\<rparr>"

definition demo_cfg :: "nat config" where
  "demo_cfg = \<lparr>init_grav_inV = (0, 0, 98 / 10), init_R_BtoI = 0, init_p_BinI = (0, 0, 0),
     init_toff_imu_to_vicon = 0, enforce_grav_mag = False, estimate_toff_vicon_to_imu = False,
     num_loop_relin = 0\<rparr>"

definition fresh_solver :: "real list \<Rightarrow> nat solver" where
  "fresh_solver ts = \<lparr>timestamp_cameras = ts, map_states = Map.empty, values_est = Map.empty,
     values_result = Map.empty, graph = [], ros_log = [], ok_polls = 0\<rparr>"

text \<open>The solver as it enters the first build: the index map of lines 131-134 is filled.\<close>

definition indexed_solver :: "real list \<Rightarrow> nat solver" where
  "indexed_solver ts = (fresh_solver ts)\<lparr>map_states := index_loop ts 0 Map.empty\<rparr>"


text \<open>
  A Propagator that serves forward intervals only, and only with zero biases; it returns
  the requested interval as its duration even where it reports no success.
\<close>

definition forward_env :: "nat collab" where
  "forward_env =
     demo_env\<lparr>propagate :=
       (\<lambda>t0 t1 bg ba. (t0 < t1 \<and> bg = (0, 0, 0) \<and> ba = (0, 0, 0), demo_preint (t1 - t0) 0))\<rparr>"

section \<open>Evaluation and abrupt ends\<close>

lemmas demo_defs = demo_env_def demo_cfg_def fresh_solver_def demo_preint_def

lemmas model_defs = build_and_solve_def build_problem_def relin_round_def debug_print_def
  optimize_problem_def init_calibration_def timeoffset_logic_def gravity_logic_def
  corrected_time_def lookup_vicon_def skip_timestamp_def initial_imu_state_def
  insert_imu_state_def add_vicon_factor_def add_preintegration_def map_states_at_def
  graph_add_def info_def err_def throw_def values_insert_def at_Rot3_def at_Vector3_def
  at_Vector1_def at_JPLNavState_def vec3_minus_def

lemma values_insert_Inl: "values_insert k v vs = Inl e \<Longrightarrow> is_exception e"
  by (auto simp: values_insert_def split: option.splits)

lemma at_Rot3_Inl: "at_Rot3 vs k = Inl e \<Longrightarrow> is_exception e"
  by (auto simp: at_Rot3_def split: option.splits val.splits)

lemma at_Vector3_Inl: "at_Vector3 vs k = Inl e \<Longrightarrow> is_exception e"
  by (auto simp: at_Vector3_def split: option.splits val.splits)

lemma at_Vector1_Inl: "at_Vector1 vs k = Inl e \<Longrightarrow> is_exception e"
  by (auto simp: at_Vector1_def split: option.splits val.splits)

lemma at_JPLNavState_Inl: "at_JPLNavState vs k = Inl e \<Longrightarrow> is_exception e"
  by (auto simp: at_JPLNavState_def split: option.splits val.splits)

lemmas at_Inl = values_insert_Inl at_Rot3_Inl at_Vector3_Inl at_Vector1_Inl at_JPLNavState_Inl

lemma init_calibration_Inl: "init_calibration cfg b s = Inl (e, l) \<Longrightarrow> is_exception e"
  by (auto simp: init_calibration_def throw_def split: if_splits sum.splits dest: at_Inl)

lemma timeoffset_logic_Inl: "timeoffset_logic cfg b s = Inl (e, l) \<Longrightarrow> is_exception e"
  by (auto simp: timeoffset_logic_def throw_def split: if_splits sum.splits dest: at_Inl)

lemma gravity_logic_Inl: "gravity_logic cfg s = Inl (e, l) \<Longrightarrow> is_exception e"
  by (auto simp: gravity_logic_def throw_def split: if_splits sum.splits dest: at_Inl)

lemma corrected_time_Inl: "corrected_time cfg vs t = Inl e \<Longrightarrow> is_exception e"
  by (auto simp: corrected_time_def split: if_splits sum.splits dest: at_Inl)

lemma insert_imu_state_Inl:
  "insert_imu_state env cfg b t q p s = Inl (e, l) \<Longrightarrow> is_exception e"
  by (auto simp: insert_imu_state_def throw_def split: if_splits sum.splits prod.splits dest: at_Inl)

lemma add_preintegration_Inl:
  "add_preintegration env t0 t1 s = Inl (e, l) \<Longrightarrow> is_exception e \<or> (\<exists>a. e = AssertionFailed a)"
  by (auto simp: add_preintegration_def throw_def Let_def split: if_splits sum.splits prod.splits dest: at_Inl)

lemma build_loop_Inl:
  "build_loop env cfg b before rest s = Inl (e, l) \<Longrightarrow> is_exception e \<or> (\<exists>a. e = AssertionFailed a)"
proof (induction rest arbitrary: before s)
  case Nil
  then show ?case by simp
next
  case (Cons t rest)
  then show ?case
    by (auto simp: throw_def Let_def split: if_splits sum.splits option.splits prod.splits
        dest: corrected_time_Inl insert_imu_state_Inl add_preintegration_Inl)
qed

lemma build_problem_Inl:
  "build_problem env cfg b s = Inl (e, l) \<Longrightarrow> is_exception e \<or> (\<exists>a. e = AssertionFailed a)"
  by (auto simp: build_problem_def Let_def split: sum.splits
      dest: init_calibration_Inl timeoffset_logic_Inl gravity_logic_Inl build_loop_Inl)

lemma relin_round_Inl:
  "relin_round env cfg b s = Inl (e, l) \<Longrightarrow> is_exception e \<or> (\<exists>a. e = AssertionFailed a)"
  by (auto simp: relin_round_def Let_def throw_def split: sum.splits if_splits
      dest: build_problem_Inl at_Inl)

declare relin_loop.simps [simp del]

lemma relin_loop_stop: "\<not> i \<le> num_loop_relin cfg \<Longrightarrow> relin_loop env cfg i s = Inr s"
  by (subst relin_loop.simps) simp

lemma relin_loop_fail:
  "i \<le> num_loop_relin cfg \<Longrightarrow> relin_round env cfg (i = 0) s = Inl e \<Longrightarrow>
   relin_loop env cfg i s = Inl e"
  by (subst relin_loop.simps) simp

lemma relin_loop_overflow:
  "i \<le> num_loop_relin cfg \<Longrightarrow> relin_round env cfg (i = 0) s = Inr s1 \<Longrightarrow> i = 2147483647 \<Longrightarrow>
   relin_loop env cfg i s = throw SignedOverflow s1"
  by (subst relin_loop.simps) simp

lemma relin_loop_step:
  "i \<le> num_loop_relin cfg \<Longrightarrow> relin_round env cfg (i = 0) s = Inr s1 \<Longrightarrow> i \<noteq> 2147483647 \<Longrightarrow>
   relin_loop env cfg i s = relin_loop env cfg (i + 1) s1"
  by (subst relin_loop.simps) simp

lemma relin_loop_Inl:
  "relin_loop env cfg i s = Inl (e, l) \<Longrightarrow>
     is_exception e \<or> (\<exists>a. e = AssertionFailed a) \<or> e = SignedOverflow"
proof (induction env cfg i s rule: relin_loop.induct)
  case (1 env cfg i s)
  show ?case
  proof (cases "i \<le> num_loop_relin cfg")
    case False
    with "1.prems" show ?thesis by (simp add: relin_loop_stop)
  next
    case True
    show ?thesis
    proof (cases "relin_round env cfg (i = 0) s")
      case (Inl a)
      with True "1.prems" show ?thesis
        by (cases a) (auto simp: relin_loop_fail dest: relin_round_Inl)
    next
      case (Inr s1)
      show ?thesis
      proof (cases "i = 2147483647")
        case True
        with \<open>i \<le> num_loop_relin cfg\<close> Inr "1.prems" show ?thesis
          by (simp add: relin_loop_overflow throw_def)
      next
        case False
        with \<open>i \<le> num_loop_relin cfg\<close> Inr "1.prems" "1.IH"[of s1] show ?thesis
          by (simp add: relin_loop_step)
      qed
    qed
  qed
qed

lemma debug_print_Inl: "debug_print cfg s = Inl (e, l) \<Longrightarrow> is_exception e"
  by (auto simp: debug_print_def throw_def split: list.splits prod.splits sum.splits if_splits
      dest: at_Inl)

lemma clean_loop_timestamps:
  "timestamp_cameras (clean_loop env before rest s) = before @ filter (has_bounding_imu env) rest"
  by (induction rest arbitrary: before s) auto

lemma clean_loop_log:
  "ros_log (clean_loop env before rest s) =
     ros_log s @ map (\<lambda>t. ROS_INFO ''    - deleted cam time %.9f'')
                   (filter (\<lambda>t. \<not> has_bounding_imu env t) rest)"
  by (induction rest arbitrary: before s) (auto simp: info_def)

section \<open>The loop of build_problem, case by case\<close>

lemma map_states_at_hit: "map_states s t = Some i \<Longrightarrow> map_states_at t s = (i, s)"
  by (simp add: map_states_at_def)

lemma skip_timestamp_hit:
  "map_states s t = Some i \<Longrightarrow>
   skip_timestamp msg t s = (info msg s)\<lparr>values_est := (values_est s)((X i) := None)\<rparr>"
proof -
  assume h: "map_states s t = Some i"
  have m: "map_states_at t (info msg s) = (i, info msg s)"
    using h by (simp add: map_states_at_def info_def)
  show ?thesis
  proof (cases "values_est s (X i) = None")
    case True
    then have "(values_est s)((X i) := None) = values_est s" by (simp add: fun_upd_idem)
    with True m show ?thesis by (simp add: skip_timestamp_def info_def)
  next
    case False
    with m show ?thesis by (simp add: skip_timestamp_def info_def)
  qed
qed

lemma insert_imu_state_hit:
  "map_states s t = Some i \<Longrightarrow> insert_imu_state env cfg b t qq pp s = Inr s1 \<Longrightarrow>
   s1 = (if b then s\<lparr>values_est := (values_est s)(X i \<mapsto> NavState (initial_imu_state env cfg qq pp))\<rparr>
         else s) \<and> (b \<longrightarrow> values_est s (X i) = None)"
  by (auto simp: insert_imu_state_def map_states_at_hit values_insert_def throw_def
      split: if_splits option.splits)

lemma add_vicon_factor_hit:
  "map_states s t = Some i \<Longrightarrow>
   add_vicon_factor cfg t qq pp R s =
     graph_add (if \<not> estimate_toff_vicon_to_imu cfg
                then ViconPoseFactor (X i) (C 0) (C 1) R qq pp
                else ViconPoseTimeoffsetFactor (X i) (C 0) (C 1) (T 0) t) s"
  by (simp add: add_vicon_factor_def map_states_at_hit)

lemma add_preintegration_hit:
  "map_states s t0 = Some i0 \<Longrightarrow> map_states s t1 = Some i1 \<Longrightarrow>
   add_preintegration env t0 t1 s = Inr s' \<Longrightarrow>
   map_states s' = map_states s \<and> values_est s' = values_est s \<and> ok_polls s' = ok_polls s \<and>
   values_result s' = values_result s \<and>
   (\<exists>f. graph s' = graph s @ [f] \<and> factor_keys f = [X i0, X i1, G 0])"
  by (auto simp: add_preintegration_def map_states_at_hit throw_def Let_def graph_add_def err_def
      split: sum.splits prod.splits if_splits)

lemma build_loop_Cons_cases:
  assumes "build_loop env cfg b before (t # rest) s = Inr s'"
  obtains
    (stop) "\<not> ros_ok env (ok_polls s)"
      "s' = s\<lparr>ok_polls := Suc (ok_polls s), timestamp_cameras := before @ t # rest\<rparr>"
  | (skip) tc msg where "ros_ok env (ok_polls s)"
      "corrected_time cfg (values_est s) t = Inr tc" "pose_rejected env tc"
      "build_loop env cfg b before rest
         (skip_timestamp msg t (s\<lparr>ok_polls := Suc (ok_polls s)\<rparr>)) = Inr s'"
  | (keep) tc qq pp R s1 s3 where "ros_ok env (ok_polls s)"
      "corrected_time cfg (values_est s) t = Inr tc" "\<not> pose_rejected env tc"
      "get_pose env tc = Some (qq, pp, R)"
      "insert_imu_state env cfg b t qq pp (s\<lparr>ok_polls := Suc (ok_polls s)\<rparr>) = Inr s1"
      "if before = [] then s3 = add_vicon_factor cfg t qq pp R s1
       else add_preintegration env (last before) t (add_vicon_factor cfg t qq pp R s1) = Inr s3"
      "build_loop env cfg b (before @ [t]) rest s3 = Inr s'"
proof (cases "ros_ok env (ok_polls s)")
  case False
  with assms stop show ?thesis by simp
next
  case ok: True
  let ?s0 = "s\<lparr>ok_polls := Suc (ok_polls s)\<rparr>"
  show ?thesis
  proof (cases "corrected_time cfg (values_est s) t")
    case (Inl e)
    with ok assms show ?thesis by (simp add: throw_def)
  next
    case tc: (Inr tc)
    show ?thesis
    proof (cases "lookup_vicon env tc")
      case None
      then have rej: "pose_rejected env tc"
        by (auto simp: lookup_vicon_def pose_rejected_def Let_def split: if_splits)
      from None ok tc assms have
        "build_loop env cfg b before rest
           (skip_timestamp ''    - skipping camera time %.9f (no vicon pose found)'' t ?s0) = Inr s'"
        by simp
      with ok tc rej skip show ?thesis by blast
    next
      case (Some pose)
      obtain qq pp R where pose: "pose = (qq, pp, R)" by (cases pose) auto
      from Some pose have gp: "get_pose env tc = Some (qq, pp, R)"
        and av: "get_pose env (tc - 1) \<noteq> None" "get_pose env (tc + 1) \<noteq> None"
        by (auto simp: lookup_vicon_def Let_def split: if_splits)
      show ?thesis
      proof (cases "isnan_norm env R \<or> isnan_inverse_norm env R")
        case True
        with gp have rej: "pose_rejected env tc" by (simp add: pose_rejected_def)
        from True Some pose ok tc assms have
          "build_loop env cfg b before rest
             (skip_timestamp ''    - skipping camera time %.9f (R.norm = %.3f | Rinv.norm = %.3f)''
                t ?s0) = Inr s'"
          by auto
        with ok tc rej skip show ?thesis by blast
      next
        case good: False
        with gp av have nrej: "\<not> pose_rejected env tc" by (simp add: pose_rejected_def)
        show ?thesis
        proof (cases "insert_imu_state env cfg b t qq pp ?s0")
          case (Inl e)
          with ok tc Some pose good assms show ?thesis by auto
        next
          case s1: (Inr s1)
          show ?thesis
          proof (cases "before = []")
            case True
            with ok tc Some pose good s1 assms have
              "build_loop env cfg b (before @ [t]) rest (add_vicon_factor cfg t qq pp R s1) = Inr s'"
              by (auto simp: Let_def)
            with ok tc nrej gp s1 True keep[of tc qq pp R s1 "add_vicon_factor cfg t qq pp R s1"]
            show ?thesis by simp
          next
            case ne: False
            show ?thesis
            proof (cases "add_preintegration env (last before) t (add_vicon_factor cfg t qq pp R s1)")
              case (Inl e)
              with ok tc Some pose good s1 ne assms show ?thesis by (auto simp: Let_def)
            next
              case s3: (Inr s3)
              with ok tc Some pose good s1 ne assms have
                "build_loop env cfg b (before @ [t]) rest s3 = Inr s'"
                by (auto simp: Let_def)
              with ok tc nrej gp s1 ne s3 keep[of tc qq pp R s1 s3] show ?thesis by simp
            qed
          qed
        qed
      qed
    qed
  qed
qed

lemma build_loop_map_states:
  "build_loop env cfg b before rest s = Inr s' \<Longrightarrow>
   set before \<union> set rest \<subseteq> dom (map_states s) \<Longrightarrow> map_states s' = map_states s"
proof (induction rest arbitrary: before s)
  case Nil
  then show ?case by auto
next
  case (Cons t rest)
  from Cons.prems(2) obtain i where i: "map_states s t = Some i" by auto
  let ?s0 = "s\<lparr>ok_polls := Suc (ok_polls s)\<rparr>"
  have i0: "map_states ?s0 t = Some i" using i by simp
  from Cons.prems(1) show ?case
  proof (cases rule: build_loop_Cons_cases)
    case stop
    then show ?thesis by simp
  next
    case (skip tc msg)
    from Cons.IH[OF skip(4)] Cons.prems(2) i0 show ?thesis
      by (auto simp: skip_timestamp_hit info_def)
  next
    case (keep tc qq pp R s1 s3)
    from insert_imu_state_hit[OF i0 keep(5)] have m1: "map_states s1 = map_states s"
      by (auto split: if_splits)
    let ?s2 = "add_vicon_factor cfg t qq pp R s1"
    have m2: "map_states ?s2 = map_states s"
      using m1 i by (simp add: add_vicon_factor_hit graph_add_def)
    have m3: "map_states s3 = map_states s"
    proof (cases "before = []")
      case True
      with keep(6) m2 show ?thesis by simp
    next
      case False
      then have "last before \<in> set before" by simp
      with Cons.prems(2) obtain j where j: "map_states s (last before) = Some j" by auto
      from False keep(6) have "add_preintegration env (last before) t ?s2 = Inr s3" by simp
      from add_preintegration_hit[OF _ _ this, of j i] j i m2 show ?thesis by simp
    qed
    from Cons.IH[OF keep(7)] Cons.prems(2) m3 show ?thesis by auto
  qed
qed

section \<open>Process exit (claim C5)\<close>

text \<open>
  Claim C5, as amended. When no camera time has bounding IMU readings (the vector is
  empty on entry, or empty after the cleaning loop), \<open>build_and_solve\<close> exits with
  \<open>EXIT_FAILURE\<close> after logging the cause in three error lines; in no other case does it
  exit with a status. Other abrupt ends remain: failed assertions and uncaught exceptions.
\<close>

theorem exit_failure_paths:
  "(filter (has_bounding_imu env) (timestamp_cameras s) = [] \<longrightarrow>
      build_and_solve env cfg s =
        Inl (EXIT_FAILURE,
             ros_log s @
             (if timestamp_cameras s = []
              then [ROS_ERROR ''[VICON-GRAPH]: Camera timestamp vector empty!!!!'',
                    ROS_ERROR ''[VICON-GRAPH]: Make sure your camera topic is correct...'',
                    ROS_ERROR ''%s on line %d'']
              else ROS_INFO ''cleaning camera timestamps'' #
                   map (\<lambda>t. ROS_INFO ''    - deleted cam time %.9f'') (timestamp_cameras s) @
                   [ROS_ERROR ''[VICON-GRAPH]: All camera timestamps where out of the range of the IMU measurements.'',
                    ROS_ERROR ''[VICON-GRAPH]: Make sure your camera and imu topics are correct...'',
                    ROS_ERROR ''%s on line %d'']))) \<and>
   (filter (has_bounding_imu env) (timestamp_cameras s) \<noteq> [] \<longrightarrow>
      (\<forall>l. build_and_solve env cfg s \<noteq> Inl (EXIT_FAILURE, l)))"
proof (intro conjI impI allI)
  assume none: "filter (has_bounding_imu env) (timestamp_cameras s) = []"
  then have all: "filter (\<lambda>t. \<not> has_bounding_imu env t) (timestamp_cameras s) = timestamp_cameras s"
    by (simp add: filter_empty_conv)
  show "build_and_solve env cfg s =
        Inl (EXIT_FAILURE,
             ros_log s @
             (if timestamp_cameras s = []
              then [ROS_ERROR ''[VICON-GRAPH]: Camera timestamp vector empty!!!!'',
                    ROS_ERROR ''[VICON-GRAPH]: Make sure your camera topic is correct...'',
                    ROS_ERROR ''%s on line %d'']
              else ROS_INFO ''cleaning camera timestamps'' #
                   map (\<lambda>t. ROS_INFO ''    - deleted cam time %.9f'') (timestamp_cameras s) @
                   [ROS_ERROR ''[VICON-GRAPH]: All camera timestamps where out of the range of the IMU measurements.'',
                    ROS_ERROR ''[VICON-GRAPH]: Make sure your camera and imu topics are correct...'',
                    ROS_ERROR ''%s on line %d'']))"
    using none all
    by (simp add: build_and_solve_def Let_def throw_def err_def info_def clean_loop_timestamps
        clean_loop_log)
next
  fix l
  assume some: "filter (has_bounding_imu env) (timestamp_cameras s) \<noteq> []"
  show "build_and_solve env cfg s \<noteq> Inl (EXIT_FAILURE, l)"
    using some
    by (auto simp: build_and_solve_def Let_def throw_def clean_loop_timestamps
        split: sum.splits dest: relin_loop_Inl debug_print_Inl)
qed

theorem exit_failure_paths_witness:
  "build_and_solve demo_env demo_cfg (fresh_solver [- 5]) =
     Inl (EXIT_FAILURE,
          [ROS_INFO ''cleaning camera timestamps'', ROS_INFO ''    - deleted cam time %.9f'',
           ROS_ERROR ''[VICON-GRAPH]: All camera timestamps where out of the range of the IMU measurements.'',
           ROS_ERROR ''[VICON-GRAPH]: Make sure your camera and imu topics are correct...'',
           ROS_ERROR ''%s on line %d'']) \<and>
   (\<forall>l. build_and_solve demo_env demo_cfg (fresh_solver [1]) \<noteq> Inl (EXIT_FAILURE, l))"
  using exit_failure_paths [where env = demo_env and cfg = demo_cfg and s = "fresh_solver [- 5]"]
    exit_failure_paths [where env = demo_env and cfg = demo_cfg and s = "fresh_solver [1]"]
  by (simp add: demo_defs)

text \<open>
  The claim as stated fails: with bounding IMU readings for every camera time the run can
  still end abruptly. A camera time whose vicon pose is missing one second later is
  pruned by the build, and the debug print then reads element 0 of the empty vector
  (std::out_of_range); a Propagator that reports failure trips \<open>assert(has_imu)\<close>.
\<close>

theorem abrupt_end_without_exit:
  "filter (has_bounding_imu demo_env) [10] \<noteq> [] \<and>
   isl (build_and_solve demo_env demo_cfg (fresh_solver [10])) \<and>
   fst (projl (build_and_solve demo_env demo_cfg (fresh_solver [10]))) = OutOfRange \<and>
   filter (has_bounding_imu demo_env) [1, 2] \<noteq> [] \<and>
   isl (build_and_solve (demo_env\<lparr>propagate := \<lambda>t0 t1 bg ba. (False, demo_preint 0 0)\<rparr>) demo_cfg
          (fresh_solver [1, 2])) \<and>
   fst (projl (build_and_solve (demo_env\<lparr>propagate := \<lambda>t0 t1 bg ba. (False, demo_preint 0 0)\<rparr>)
                 demo_cfg (fresh_solver [1, 2]))) = AssertionFailed ''has_imu''"
  by (simp add: demo_defs model_defs relin_loop.simps Let_def)

section \<open>Timestamps, index map and graph keys along a run\<close>


lemma subseq_insert_mid: "subseq xs (a @ c) \<Longrightarrow> subseq xs (a @ t # c)"
  by (metis list_emb_append_mono subseq_Cons' subseq_order.order_refl subseq_order.dual_order.trans
      list_emb_Cons)

lemma build_loop_subseq:
  "build_loop env cfg b before rest s = Inr s' \<Longrightarrow> subseq (timestamp_cameras s') (before @ rest)"
proof (induction rest arbitrary: before s)
  case Nil
  then show ?case by auto
next
  case (Cons t rest)
  from Cons.prems show ?case
  proof (cases rule: build_loop_Cons_cases)
    case stop
    then show ?thesis by simp
  next
    case (skip tc msg)
    from Cons.IH[OF skip(4)] show ?thesis by (rule subseq_insert_mid)
  next
    case (keep tc qq pp R s1 s3)
    from Cons.IH[OF keep(7)] show ?thesis by simp
  qed
qed

lemma subseq_set: "subseq xs ys \<Longrightarrow> set xs \<subseteq> set ys"
  using list_emb_set[of "(=)" xs ys] by auto

lemma build_loop_states_indexed:
  "build_loop env cfg b before rest s = Inr s' \<Longrightarrow>
   set before \<union> set rest \<subseteq> dom (map_states s) \<Longrightarrow> states_indexed s \<Longrightarrow> states_indexed s'"
proof (induction rest arbitrary: before s)
  case Nil
  then show ?case by (auto simp: states_indexed_def)
next
  case (Cons t rest)
  from Cons.prems(2) obtain i where i: "map_states s t = Some i" by auto
  let ?s0 = "s\<lparr>ok_polls := Suc (ok_polls s)\<rparr>"
  have i0: "map_states ?s0 t = Some i" using i by simp
  from Cons.prems(1) show ?case
  proof (cases rule: build_loop_Cons_cases)
    case stop
    with Cons.prems(3) show ?thesis by (simp add: states_indexed_def)
  next
    case (skip tc msg)
    have "states_indexed (skip_timestamp msg t ?s0)"
      using Cons.prems(3) i0 by (simp add: skip_timestamp_hit info_def states_indexed_def)
    from Cons.IH[OF skip(4) _ this] Cons.prems(2) i0 show ?thesis
      by (auto simp: skip_timestamp_hit info_def)
  next
    case (keep tc qq pp R s1 s3)
    from insert_imu_state_hit[OF i0 keep(5)]
    have m1: "map_states s1 = map_states s" and g1: "graph s1 = graph s"
      by (auto split: if_splits)
    let ?s2 = "add_vicon_factor cfg t qq pp R s1"
    have m2: "map_states ?s2 = map_states s"
      using m1 i by (simp add: add_vicon_factor_hit graph_add_def)
    have p2: "states_indexed ?s2"
      using Cons.prems(3) m1 g1 i
      by (auto simp: add_vicon_factor_hit graph_add_def states_indexed_def)
    have m3: "map_states s3 = map_states s \<and> states_indexed s3"
    proof (cases "before = []")
      case True
      with keep(6) m2 p2 show ?thesis by simp
    next
      case False
      then have "last before \<in> set before" by simp
      with Cons.prems(2) obtain j where j: "map_states s (last before) = Some j" by auto
      from False keep(6) have "add_preintegration env (last before) t ?s2 = Inr s3" by simp
      from add_preintegration_hit[OF _ _ this, of j i] j i m2
      obtain f where f: "map_states s3 = map_states s" "graph s3 = graph ?s2 @ [f]"
        "factor_keys f = [X j, X i, G 0]" by auto
      have "\<exists>t. map_states s t = Some j" "\<exists>t. map_states s t = Some i" using i j by blast+
      with f p2 m2 show ?thesis by (auto simp: states_indexed_def)
    qed
    from Cons.IH[OF keep(7)] Cons.prems(2) m3 show ?thesis by auto
  qed
qed

lemma init_calibration_Inr:
  "init_calibration cfg b s = Inr s' \<Longrightarrow>
   map_states s' = map_states s \<and> timestamp_cameras s' = timestamp_cameras s \<and>
   graph s' = graph s \<and> ros_log s' = ros_log s \<and> ok_polls s' = ok_polls s \<and>
   values_result s' = values_result s \<and>
   values_est s' = (if b then (values_est s)(C 0 \<mapsto> Rot3 (init_R_BtoI cfg),
                                 C 1 \<mapsto> Vector3 (init_p_BinI cfg),
                                 G 0 \<mapsto> Vector3 (init_grav_inV cfg))
                    else values_est s)"
  by (auto simp: init_calibration_def throw_def values_insert_def
      split: if_splits sum.splits option.splits)

lemma timeoffset_logic_Inr:
  "timeoffset_logic cfg b s = Inr s' \<Longrightarrow>
   map_states s' = map_states s \<and> timestamp_cameras s' = timestamp_cameras s \<and>
   ok_polls s' = ok_polls s \<and> values_result s' = values_result s \<and>
   (if estimate_toff_vicon_to_imu cfg
    then values_est s' =
           (if b then (values_est s)(T 0 \<mapsto> Vector1 (init_toff_imu_to_vicon cfg)) else values_est s) \<and>
         (\<exists>toff. values_est s' (T 0) = Some (Vector1 toff) \<and>
                 graph s' = graph s @ [PriorFactor (T 0) toff (2 / 100)]) \<and>
         ros_log s' = ros_log s @ [ROS_INFO ''[BUILD]: current time offset is %.4f'']
    else s' = s)"
  by (auto simp: timeoffset_logic_def throw_def values_insert_def at_Vector1_def info_def
      graph_add_def split: if_splits sum.splits option.splits val.splits)

lemma gravity_logic_Inr:
  "gravity_logic cfg s = Inr s' \<Longrightarrow>
   map_states s' = map_states s \<and> timestamp_cameras s' = timestamp_cameras s \<and>
   ok_polls s' = ok_polls s \<and> values_result s' = values_result s \<and>
   values_est s' = values_est s \<and>
   graph s' = graph s @ (if enforce_grav_mag cfg
                         then [MagnitudePrior (G 0) (1 / 10 ^ 10) (vec3_norm (init_grav_inV cfg))]
                         else []) \<and>
   ros_log s' = ros_log s @ (if enforce_grav_mag cfg then []
                             else [ROS_INFO ''[BUILD]: current gravity mag is %.4f''])"
  by (auto simp: gravity_logic_def throw_def info_def graph_add_def split: if_splits sum.splits)

lemma build_problem_Inr_cases:
  assumes "build_problem env cfg b s = Inr s'"
  obtains s1 s2 s3 where
    "init_calibration cfg b ((info ''[BUILD]: building the graph (might take a while)'' s)\<lparr>graph := []\<rparr>) = Inr s1"
    "timeoffset_logic cfg b s1 = Inr s2" "gravity_logic cfg s2 = Inr s3"
    "build_loop env cfg b [] (timestamp_cameras s3) s3 = Inr s'"
  using assms by (auto simp: build_problem_def Let_def split: sum.splits)

lemma build_problem_map_states:
  assumes "build_problem env cfg b s = Inr s'" "set (timestamp_cameras s) \<subseteq> dom (map_states s)"
  shows "map_states s' = map_states s \<and> subseq (timestamp_cameras s') (timestamp_cameras s) \<and>
         states_indexed s'"
proof -
  from assms(1) obtain s1 s2 s3 where
    c: "init_calibration cfg b ((info ''[BUILD]: building the graph (might take a while)'' s)\<lparr>graph := []\<rparr>) = Inr s1"
      "timeoffset_logic cfg b s1 = Inr s2" "gravity_logic cfg s2 = Inr s3"
      "build_loop env cfg b [] (timestamp_cameras s3) s3 = Inr s'"
    by (rule build_problem_Inr_cases)
  from init_calibration_Inr[OF c(1)] have f1: "map_states s1 = map_states s"
    "timestamp_cameras s1 = timestamp_cameras s" "graph s1 = []" by (simp_all add: info_def)
  from timeoffset_logic_Inr[OF c(2)] f1 have f2: "map_states s2 = map_states s"
    "timestamp_cameras s2 = timestamp_cameras s"
    "\<forall>f\<in>set (graph s2). \<forall>i. X i \<notin> set (factor_keys f)"
    by (auto split: if_splits)
  from gravity_logic_Inr[OF c(3)] f2 have f3: "map_states s3 = map_states s"
    "timestamp_cameras s3 = timestamp_cameras s"
    "\<forall>f\<in>set (graph s3). \<forall>i. X i \<notin> set (factor_keys f)"
    by (auto split: if_splits)
  from f3(3) have "states_indexed s3" by (simp add: states_indexed_def)
  with build_loop_map_states[OF c(4)] build_loop_subseq[OF c(4)] build_loop_states_indexed[OF c(4)]
    f3 assms(2)
  show ?thesis by simp
qed

lemma optimize_problem_fields:
  "map_states (optimize_problem env s) = map_states s"
  "timestamp_cameras (optimize_problem env s) = timestamp_cameras s"
  "graph (optimize_problem env s) = graph s"
  "values_est (optimize_problem env s) = values_est s"
  "ok_polls (optimize_problem env s) = ok_polls s"
  "values_result (optimize_problem env s) = optimize env (graph s) (values_est s)"
  by (simp_all add: optimize_problem_def Let_def info_def)

lemma relin_round_Inr:
  assumes "relin_round env cfg b s = Inr s'"
  obtains s1 where "build_problem env cfg b s = Inr s1"
    "map_states s' = map_states s1" "timestamp_cameras s' = timestamp_cameras s1"
    "graph s' = graph s1" "ok_polls s' = ok_polls s1"
    "values_result s' = optimize env (graph s1) (values_est s1)"
    "values_est s' = values_result s'"
proof (cases "build_problem env cfg b s")
  case (Inl e)
  with assms show ?thesis by (simp add: relin_round_def)
next
  case (Inr s1)
  with assms have
    "map_states s' = map_states s1 \<and> timestamp_cameras s' = timestamp_cameras s1 \<and>
     graph s' = graph s1 \<and> ok_polls s' = ok_polls s1 \<and>
     values_result s' = optimize env (graph s1) (values_est s1) \<and>
     values_est s' = values_result s'"
    by (auto simp: relin_round_def Let_def throw_def info_def optimize_problem_fields
        split: if_splits sum.splits)
  with Inr that show ?thesis by blast
qed

lemma relin_loop_Inr_cases:
  assumes "relin_loop env cfg i s = Inr s'"
  obtains (stop) "\<not> i \<le> num_loop_relin cfg" "s' = s"
  | (step) s1 where "i \<le> num_loop_relin cfg" "i \<noteq> 2147483647"
      "relin_round env cfg (i = 0) s = Inr s1" "relin_loop env cfg (i + 1) s1 = Inr s'"
proof (cases "i \<le> num_loop_relin cfg")
  case False
  with assms stop show ?thesis by (simp add: relin_loop_stop)
next
  case True
  show ?thesis
  proof (cases "relin_round env cfg (i = 0) s")
    case (Inl e)
    with True assms show ?thesis by (simp add: relin_loop_fail)
  next
    case (Inr s1)
    show ?thesis
    proof (cases "i = 2147483647")
      case True
      with \<open>i \<le> num_loop_relin cfg\<close> Inr assms show ?thesis
        by (simp add: relin_loop_overflow throw_def)
    next
      case False
      with True Inr assms step[of s1] show ?thesis by (simp add: relin_loop_step)
    qed
  qed
qed

lemma relin_loop_map_states:
  "relin_loop env cfg i s = Inr s' \<Longrightarrow> set (timestamp_cameras s) \<subseteq> dom (map_states s) \<Longrightarrow>
   states_indexed s \<or> i \<le> num_loop_relin cfg \<Longrightarrow>
   map_states s' = map_states s \<and> subseq (timestamp_cameras s') (timestamp_cameras s) \<and>
   states_indexed s'"
proof (induction env cfg i s rule: relin_loop.induct)
  case (1 env cfg i s)
  from "1.prems"(1) show ?case
  proof (cases rule: relin_loop_Inr_cases)
    case stop
    with "1.prems" show ?thesis by simp
  next
    case (step s1)
    from step(3) obtain s0 where s0: "build_problem env cfg (i = 0) s = Inr s0"
      "map_states s1 = map_states s0" "timestamp_cameras s1 = timestamp_cameras s0"
      "graph s1 = graph s0"
      by (rule relin_round_Inr)
    from build_problem_map_states[OF s0(1) "1.prems"(2)] s0
    have f: "map_states s1 = map_states s" "subseq (timestamp_cameras s1) (timestamp_cameras s)"
      "states_indexed s1"
      by (auto simp: states_indexed_def)
    from f(2) have "set (timestamp_cameras s1) \<subseteq> set (timestamp_cameras s)"
      by (rule subseq_set)
    with "1.prems"(2) f(1) have d: "set (timestamp_cameras s1) \<subseteq> dom (map_states s1)" by auto
    from "1.IH"[OF step(1) step(3) step(2) step(4) d] f
    show ?thesis by (auto intro: subseq_order.trans)
  qed
qed

lemma index_loop_keep: "m t = Some j \<Longrightarrow> index_loop ts i m t = Some j"
proof (induction ts arbitrary: i m)
  case Nil
  then show ?case by simp
next
  case (Cons a ts)
  from Cons.prems have "(case m a of None \<Rightarrow> m(a \<mapsto> i) | Some k \<Rightarrow> m) t = Some j"
    by (cases "m a") auto
  from Cons.IH[where m = "case m a of None \<Rightarrow> m(a \<mapsto> i) | Some k \<Rightarrow> m" and i = "Suc i"] this
  show ?case by simp
qed

lemma index_loop_dom: "dom (index_loop ts i m) = dom m \<union> set ts"
  by (induction ts arbitrary: i m) (auto split: option.splits)

lemma index_loop_fresh:
  "t \<in> set ts \<Longrightarrow> m t = None \<Longrightarrow> \<exists>k. index_loop ts i m t = Some k \<and> i \<le> k"
proof (induction ts arbitrary: i m)
  case Nil
  then show ?case by simp
next
  case (Cons a ts)
  show ?case
  proof (cases "a = t")
    case True
    with Cons.prems show ?thesis by (simp add: index_loop_keep)
  next
    case False
    with Cons.prems have "t \<in> set ts" by simp
    moreover have "(case m a of None \<Rightarrow> m(a \<mapsto> i) | Some j \<Rightarrow> m) t = None"
      using False Cons.prems(2) by (simp split: option.splits)
    ultimately obtain k where
      "index_loop ts (Suc i) (case m a of None \<Rightarrow> m(a \<mapsto> i) | Some j \<Rightarrow> m) t = Some k" "Suc i \<le> k"
      using Cons.IH[where m = "case m a of None \<Rightarrow> m(a \<mapsto> i) | Some j \<Rightarrow> m" and i = "Suc i"]
      by blast
    then show ?thesis by auto
  qed
qed

lemma index_loop_sorted:
  "sorted ts \<Longrightarrow> t1 \<in> set ts \<Longrightarrow> t2 \<in> set ts \<Longrightarrow> t1 < t2 \<Longrightarrow> m t1 = None \<Longrightarrow> m t2 = None \<Longrightarrow>
   \<exists>k1 k2. index_loop ts i m t1 = Some k1 \<and> index_loop ts i m t2 = Some k2 \<and> k1 < k2"
proof (induction ts arbitrary: i m)
  case Nil
  then show ?case by simp
next
  case (Cons a ts)
  let ?m = "case m a of None \<Rightarrow> m(a \<mapsto> i) | Some j \<Rightarrow> m"
  from Cons.prems have a2: "a \<noteq> t2" by auto
  with Cons.prems have t2: "t2 \<in> set ts" by simp
  have n2: "?m t2 = None" using a2 Cons.prems(6) by (simp split: option.splits)
  show ?case
  proof (cases "a = t1")
    case True
    with Cons.prems(5) have "?m t1 = Some i" by simp
    then have k1: "index_loop ts (Suc i) ?m t1 = Some i" by (rule index_loop_keep)
    from index_loop_fresh[where t = t2 and ts = ts and m = ?m and i = "Suc i"] t2 n2 obtain k where
      "index_loop ts (Suc i) ?m t2 = Some k" "Suc i \<le> k" by blast
    with k1 show ?thesis by simp
  next
    case False
    with Cons.prems have t1: "t1 \<in> set ts" by simp
    have n1: "?m t1 = None" using False Cons.prems(5) by (simp split: option.splits)
    from Cons.prems(1) have "sorted ts" by simp
    from Cons.IH[where m = ?m and i = "Suc i"] this t1 t2 Cons.prems(4) n1 n2
    show ?thesis by simp
  qed
qed

lemma debug_print_Inr:
  "debug_print cfg s = Inr s' \<Longrightarrow> set (timestamp_cameras s) \<subseteq> dom (map_states s) \<Longrightarrow> s' = s"
proof -
  assume a: "debug_print cfg s = Inr s'" and d: "set (timestamp_cameras s) \<subseteq> dom (map_states s)"
  from a obtain t0 ts where ts: "timestamp_cameras s = t0 # ts"
    by (cases "timestamp_cameras s") (auto simp: debug_print_def throw_def)
  with d obtain i0 where i0: "map_states s t0 = Some i0" by auto
  from ts have "last (timestamp_cameras s) \<in> set (timestamp_cameras s)" by simp
  with d obtain iN where iN: "map_states s (last (timestamp_cameras s)) = Some iN" by blast
  from a ts i0 iN show "s' = s"
    by (auto simp: debug_print_def throw_def map_states_at_hit
        split: sum.splits if_splits)
qed

lemma build_and_solve_Inr:
  assumes "build_and_solve env cfg s = Inr s'"
  shows "map_states s' = index_loop (filter (has_bounding_imu env) (timestamp_cameras s)) 0 Map.empty \<and>
         subseq (timestamp_cameras s') (filter (has_bounding_imu env) (timestamp_cameras s)) \<and>
         (0 \<le> num_loop_relin cfg \<longrightarrow> states_indexed s')"
proof -
  let ?ts = "filter (has_bounding_imu env) (timestamp_cameras s)"
  let ?s1 = "clean_loop env [] (timestamp_cameras s) (info ''cleaning camera timestamps'' s)"
  let ?s3 = "?s1\<lparr>values_est := Map.empty, map_states := index_loop ?ts 0 Map.empty\<rparr>"
  from assms obtain s4 where s4: "relin_loop env cfg 0 ?s3 = Inr s4" "debug_print cfg s4 = Inr s'"
    by (auto simp: build_and_solve_def Let_def throw_def clean_loop_timestamps
        split: if_splits sum.splits)
  have d3: "set (timestamp_cameras ?s3) \<subseteq> dom (map_states ?s3)"
    by (simp add: clean_loop_timestamps index_loop_dom)
  show ?thesis
  proof (cases "0 \<le> num_loop_relin cfg")
    case True
    from relin_loop_map_states[OF s4(1) d3] True
    have f: "map_states s4 = index_loop ?ts 0 Map.empty" "subseq (timestamp_cameras s4) ?ts"
      "states_indexed s4"
      by (simp_all add: clean_loop_timestamps)
    from f(2) have "set (timestamp_cameras s4) \<subseteq> set ?ts" by (rule subseq_set)
    with f(1) have "set (timestamp_cameras s4) \<subseteq> dom (map_states s4)"
      by (simp add: index_loop_dom)
    from debug_print_Inr[OF s4(2) this] f True show ?thesis by simp
  next
    case False
    with s4(1) have e: "s4 = ?s3" by (simp add: relin_loop_stop)
    from debug_print_Inr[OF s4(2)] d3 e have "s' = ?s3" by simp
    with False show ?thesis by (simp add: clean_loop_timestamps)
  qed
qed

section \<open>Pruning against the IMU coverage (claim C2)\<close>

text \<open>
  Claim C2. The cleaning loop, which runs before the index map is filled and before any
  graph is built, leaves exactly the camera times that have bounding IMU readings, in
  their order. After a run of \<open>build_and_solve\<close>, a time without bounding IMU readings is
  neither in the timestamp vector nor in the state-index map: the map, filled before the
  first build, holds exactly the input times that have bounding readings. When at least
  one build pass runs, every state key \<open>X i\<close> of a factor of the built graph is the index
  of an input time with bounding readings, so no state of a time without them is in the
  graph.
\<close>

theorem pruning_completeness:
  assumes "build_and_solve env cfg s = Inr s'"
  shows "timestamp_cameras
           (clean_loop env [] (timestamp_cameras s) (info ''cleaning camera timestamps'' s)) =
           filter (has_bounding_imu env) (timestamp_cameras s) \<and>
         (\<forall>t. \<not> has_bounding_imu env t \<longrightarrow>
            t \<notin> set (timestamp_cameras s') \<and> map_states s' t = None) \<and>
         dom (map_states s') = {t \<in> set (timestamp_cameras s). has_bounding_imu env t} \<and>
         (0 \<le> num_loop_relin cfg \<longrightarrow>
            (\<forall>f\<in>set (graph s'). \<forall>i. X i \<in> set (factor_keys f) \<longrightarrow>
               (\<exists>t\<in>set (timestamp_cameras s). has_bounding_imu env t \<and> map_states s' t = Some i)))"
proof -
  let ?ts = "filter (has_bounding_imu env) (timestamp_cameras s)"
  from build_and_solve_Inr[OF assms] have
    m: "map_states s' = index_loop ?ts 0 Map.empty" and
    sub: "subseq (timestamp_cameras s') ?ts" and
    g: "0 \<le> num_loop_relin cfg \<longrightarrow> states_indexed s'"
    by simp_all
  from m have d: "dom (map_states s') = {t \<in> set (timestamp_cameras s). has_bounding_imu env t}"
    by (auto simp: index_loop_dom)
  from sub have ss: "set (timestamp_cameras s') \<subseteq> set ?ts" by (rule subseq_set)
  have a: "\<forall>t. \<not> has_bounding_imu env t \<longrightarrow>
            t \<notin> set (timestamp_cameras s') \<and> map_states s' t = None"
    using d ss by auto
  have b: "0 \<le> num_loop_relin cfg \<longrightarrow>
            (\<forall>f\<in>set (graph s'). \<forall>i. X i \<in> set (factor_keys f) \<longrightarrow>
               (\<exists>t\<in>set (timestamp_cameras s). has_bounding_imu env t \<and> map_states s' t = Some i))"
  proof (intro impI ballI allI)
    fix f i
    assume "0 \<le> num_loop_relin cfg" "f \<in> set (graph s')" "X i \<in> set (factor_keys f)"
    with g obtain t where t: "map_states s' t = Some i" by (auto simp: states_indexed_def)
    then have "t \<in> dom (map_states s')" by auto
    with d t show "\<exists>t\<in>set (timestamp_cameras s). has_bounding_imu env t \<and> map_states s' t = Some i"
      by auto
  qed
  have c: "timestamp_cameras
           (clean_loop env [] (timestamp_cameras s) (info ''cleaning camera timestamps'' s)) =
           filter (has_bounding_imu env) (timestamp_cameras s)"
    by (simp add: clean_loop_timestamps)
  from c a d b show ?thesis by blast
qed

theorem pruning_completeness_witness:
  "\<not> isl (build_and_solve demo_env demo_cfg (fresh_solver [- 5, 1, 2])) \<and>
   \<not> has_bounding_imu demo_env (- 5) \<and>
   - 5 \<notin> set (timestamp_cameras (projr (build_and_solve demo_env demo_cfg (fresh_solver [- 5, 1, 2])))) \<and>
   map_states (projr (build_and_solve demo_env demo_cfg (fresh_solver [- 5, 1, 2]))) (- 5) = None \<and>
   length (timestamp_cameras (projr (build_and_solve demo_env demo_cfg (fresh_solver [- 5, 1, 2])))) = 2"
proof -
  let ?r = "build_and_solve demo_env demo_cfg (fresh_solver [- 5, 1, 2])"
  have ok: "\<not> isl ?r" and len: "length (timestamp_cameras (projr ?r)) = 2"
    by (simp_all add: demo_defs model_defs relin_loop.simps Let_def)
  then have e: "?r = Inr (projr ?r)" by simp
  have nb: "\<not> has_bounding_imu demo_env (- 5)" by (simp add: demo_env_def)
  from pruning_completeness[OF e] nb ok len show ?thesis by blast
qed

section \<open>State keys and time order (claim C6)\<close>

text \<open>
  Claim C6, as amended. When the camera times are handed over in ascending order, any
  two surviving times \<open>t1 < t2\<close> have keys \<open>k1 < k2\<close>. The keys are those given by lines
  131-134 to the vector cleaned of the times without IMU data; pruning in the build passes
  leaves the map as it was, so the keys of the survivors are not renumbered.
\<close>

theorem state_keys_increasing:
  assumes "build_and_solve env cfg s = Inr s'" and "sorted (timestamp_cameras s)"
  shows "(\<forall>t1\<in>set (timestamp_cameras s'). \<forall>t2\<in>set (timestamp_cameras s'). t1 < t2 \<longrightarrow>
            (\<exists>k1 k2. map_states s' t1 = Some k1 \<and> map_states s' t2 = Some k2 \<and> k1 < k2)) \<and>
         map_states s' =
           index_loop (filter (has_bounding_imu env) (timestamp_cameras s)) 0 Map.empty"
proof -
  let ?ts = "filter (has_bounding_imu env) (timestamp_cameras s)"
  from build_and_solve_Inr[OF assms(1)] have
    m: "map_states s' = index_loop ?ts 0 Map.empty" and
    sub: "subseq (timestamp_cameras s') ?ts"
    by simp_all
  from sub have ss: "set (timestamp_cameras s') \<subseteq> set ?ts" by (rule subseq_set)
  from assms(2) have srt: "sorted ?ts" by (rule sorted_wrt_filter)
  have "\<forall>t1\<in>set (timestamp_cameras s'). \<forall>t2\<in>set (timestamp_cameras s'). t1 < t2 \<longrightarrow>
            (\<exists>k1 k2. map_states s' t1 = Some k1 \<and> map_states s' t2 = Some k2 \<and> k1 < k2)"
  proof (intro ballI impI)
    fix t1 t2
    assume "t1 \<in> set (timestamp_cameras s')" "t2 \<in> set (timestamp_cameras s')" "t1 < t2"
    with ss have "t1 \<in> set ?ts" "t2 \<in> set ?ts" "t1 < t2" by auto
    from index_loop_sorted[where m = Map.empty and i = 0, OF srt this] m
    show "\<exists>k1 k2. map_states s' t1 = Some k1 \<and> map_states s' t2 = Some k2 \<and> k1 < k2"
      by simp
  qed
  with m show ?thesis by simp
qed

theorem state_keys_increasing_witness:
  "\<not> isl (build_and_solve demo_env demo_cfg (fresh_solver [- 5, 1, 2, 10])) \<and>
   sorted [- 5, 1, 2, 10 :: real] \<and>
   timestamp_cameras (projr (build_and_solve demo_env demo_cfg (fresh_solver [- 5, 1, 2, 10]))) = [1, 2] \<and>
   (\<exists>k1 k2. map_states (projr (build_and_solve demo_env demo_cfg (fresh_solver [- 5, 1, 2, 10]))) 1 = Some k1 \<and>
            map_states (projr (build_and_solve demo_env demo_cfg (fresh_solver [- 5, 1, 2, 10]))) 2 = Some k2 \<and>
            k1 < k2)"
proof -
  let ?r = "build_and_solve demo_env demo_cfg (fresh_solver [- 5, 1, 2, 10])"
  have ok: "\<not> isl ?r" and ts: "timestamp_cameras (projr ?r) = [1, 2]"
    by (simp_all add: demo_defs model_defs relin_loop.simps Let_def)
  then have e: "?r = Inr (projr ?r)" by simp
  have srt: "sorted (timestamp_cameras (fresh_solver [- 5, 1, 2, 10]))"
    by (simp add: fresh_solver_def)
  from state_keys_increasing[OF e srt, THEN conjunct1] ts ok show ?thesis by simp
qed

text \<open>
  The source does not sort the vector: a key is a position in it. For the times 2, 1
  (in this order) the earlier time gets the larger key.
\<close>

theorem keys_follow_position_not_time:
  "\<not> isl (build_and_solve demo_env demo_cfg (fresh_solver [2, 1])) \<and>
   timestamp_cameras (projr (build_and_solve demo_env demo_cfg (fresh_solver [2, 1]))) = [2, 1] \<and>
   map_states (projr (build_and_solve demo_env demo_cfg (fresh_solver [2, 1]))) 1 = Some 1 \<and>
   map_states (projr (build_and_solve demo_env demo_cfg (fresh_solver [2, 1]))) 2 = Some 0"
  by (simp add: demo_defs model_defs relin_loop.simps Let_def)

section \<open>What each step of the build loop changes\<close>

lemma map_states_at_fst: "fst (map_states_at t s) = state_index s t"
  by (simp add: map_states_at_def state_index_def split: option.splits)

lemma map_states_at_snd:
  "timestamp_cameras (snd (map_states_at t s)) = timestamp_cameras s"
  "values_est (snd (map_states_at t s)) = values_est s"
  "values_result (snd (map_states_at t s)) = values_result s"
  "graph (snd (map_states_at t s)) = graph s"
  "ros_log (snd (map_states_at t s)) = ros_log s"
  "ok_polls (snd (map_states_at t s)) = ok_polls s"
  "state_index (snd (map_states_at t s)) u = state_index s u"
  by (simp_all add: map_states_at_def state_index_def split: option.splits)

lemma state_index_simps:
  "state_index (err msg s) u = state_index s u"
  "state_index (info msg s) u = state_index s u"
  "state_index (graph_add f s) u = state_index s u"
  "state_index (s\<lparr>ok_polls := n\<rparr>) u = state_index s u"
  "state_index (s\<lparr>values_est := vs\<rparr>) u = state_index s u"
  "state_index (s\<lparr>graph := g\<rparr>) u = state_index s u"
  by (simp_all add: state_index_def err_def info_def graph_add_def)

lemma skip_timestamp_fields:
  "timestamp_cameras (skip_timestamp msg t s) = timestamp_cameras s"
  "values_est (skip_timestamp msg t s) = (values_est s)((X (state_index s t)) := None)"
  "values_result (skip_timestamp msg t s) = values_result s"
  "graph (skip_timestamp msg t s) = graph s"
  "ros_log (skip_timestamp msg t s) = ros_log s @ [ROS_INFO msg]"
  "ok_polls (skip_timestamp msg t s) = ok_polls s"
  "state_index (skip_timestamp msg t s) u = state_index s u"
  by (auto simp: skip_timestamp_def map_states_at_def state_index_def info_def
      split: option.splits)

lemma insert_imu_state_fields:
  assumes "insert_imu_state env cfg b t qq pp s = Inr s1"
  shows "timestamp_cameras s1 = timestamp_cameras s"
    "values_est s1 = (if b then (values_est s)(X (state_index s t) \<mapsto>
                                   NavState (initial_imu_state env cfg qq pp))
                      else values_est s)"
    "b \<longrightarrow> values_est s (X (state_index s t)) = None"
    "values_result s1 = values_result s"
    "graph s1 = graph s"
    "ros_log s1 = ros_log s"
    "ok_polls s1 = ok_polls s"
    "state_index s1 u = state_index s u"
  using assms
  by (auto simp: insert_imu_state_def map_states_at_def state_index_def values_insert_def throw_def
      split: option.splits if_splits)

lemma add_vicon_factor_fields:
  "timestamp_cameras (add_vicon_factor cfg t qq pp R s) = timestamp_cameras s"
  "values_est (add_vicon_factor cfg t qq pp R s) = values_est s"
  "values_result (add_vicon_factor cfg t qq pp R s) = values_result s"
  "graph (add_vicon_factor cfg t qq pp R s) =
     graph s @ [if \<not> estimate_toff_vicon_to_imu cfg
                then ViconPoseFactor (X (state_index s t)) (C 0) (C 1) R qq pp
                else ViconPoseTimeoffsetFactor (X (state_index s t)) (C 0) (C 1) (T 0) t]"
  "ros_log (add_vicon_factor cfg t qq pp R s) = ros_log s"
  "ok_polls (add_vicon_factor cfg t qq pp R s) = ok_polls s"
  "state_index (add_vicon_factor cfg t qq pp R s) u = state_index s u"
  by (auto simp: add_vicon_factor_def map_states_at_def state_index_def graph_add_def
      split: option.splits)

lemma add_preintegration_Inr_cases:
  assumes "add_preintegration env t0 t1 s = Inr s'"
  obtains st pre where
    "at_JPLNavState (values_est s) (X (state_index s t0)) = Inr st"
    "propagate env t0 t1 (nav_bg st) (nav_ba st) = (True, pre)" "DT pre = double_minus env t1 t0"
    "s' = graph_add (imu_factor (state_index s t0) (state_index s t1) pre)
            (snd (map_states_at t1
               (if isnan_norm env (P_meas pre) \<or> isnan_inverse_norm env (P_meas pre)
                then err ''THIS SHOULD NEVER HAPPEN!@#!@#!@#!@#!#@''
                       (err ''R_imu is NAN | R.norm = %.3f | Rinv.norm = %.3f''
                          (snd (map_states_at t0 s)))
                else snd (map_states_at t0 s))))"
proof -
  obtain i0 s1 where m0: "map_states_at t0 s = (i0, s1)" by (cases "map_states_at t0 s")
  then have i0: "i0 = state_index s t0" and s1: "s1 = snd (map_states_at t0 s)"
    using map_states_at_fst[of t0 s] by simp_all
  have v1: "values_est s1 = values_est s" by (simp add: s1 map_states_at_snd)
  from assms m0 obtain st where st: "at_JPLNavState (values_est s1) (X i0) = Inr st"
    by (cases "at_JPLNavState (values_est s1) (X i0)")
       (auto simp: add_preintegration_def throw_def)
  obtain has_imu pre where pr: "propagate env t0 t1 (nav_bg st) (nav_ba st) = (has_imu, pre)"
    by (cases "propagate env t0 t1 (nav_bg st) (nav_ba st)")
  from assms m0 st pr have h: "has_imu" "DT pre = double_minus env t1 t0"
    by (auto simp: add_preintegration_def throw_def split: if_splits)
  let ?s2 = "if isnan_norm env (P_meas pre) \<or> isnan_inverse_norm env (P_meas pre)
             then err ''THIS SHOULD NEVER HAPPEN!@#!@#!@#!@#!#@''
                    (err ''R_imu is NAN | R.norm = %.3f | Rinv.norm = %.3f'' s1)
             else s1"
  obtain i1 s3 where m1: "map_states_at t1 ?s2 = (i1, s3)" by (cases "map_states_at t1 ?s2")
  then have "i1 = state_index ?s2 t1" and s3: "s3 = snd (map_states_at t1 ?s2)"
    using map_states_at_fst[of t1 ?s2] by simp_all
  then have i1: "i1 = state_index s t1"
    by (simp add: s1 map_states_at_snd state_index_simps)
  from assms m0 st pr h m1 have "s' = graph_add (imu_factor i0 i1 pre) s3"
    by (simp add: add_preintegration_def Let_def imu_factor_def)
  with that[of st pre] st pr h i0 i1 s3 s1 v1 show ?thesis by simp
qed

lemma add_preintegration_fields:
  assumes "add_preintegration env t0 t1 s = Inr s'"
  shows "timestamp_cameras s' = timestamp_cameras s"
    "values_est s' = values_est s"
    "values_result s' = values_result s"
    "ok_polls s' = ok_polls s"
    "state_index s' u = state_index s u"
  using assms
  by (auto elim!: add_preintegration_Inr_cases
      simp: map_states_at_snd state_index_simps, auto simp: graph_add_def map_states_at_snd err_def)

lemma add_preintegration_graph:
  assumes "add_preintegration env t0 t1 s = Inr s'"
  shows "\<exists>st pre. at_JPLNavState (values_est s) (X (state_index s t0)) = Inr st \<and>
           propagate env t0 t1 (nav_bg st) (nav_ba st) = (True, pre) \<and>
           DT pre = double_minus env t1 t0 \<and>
           graph s' = graph s @ [imu_factor (state_index s t0) (state_index s t1) pre] \<and>
           ros_log s' = ros_log s @
             (if isnan_norm env (P_meas pre) \<or> isnan_inverse_norm env (P_meas pre)
              then [ROS_ERROR ''R_imu is NAN | R.norm = %.3f | Rinv.norm = %.3f'',
                    ROS_ERROR ''THIS SHOULD NEVER HAPPEN!@#!@#!@#!@#!#@'']
              else [])"
  using assms
  by (auto elim!: add_preintegration_Inr_cases
      simp: graph_add_def map_states_at_snd err_def)

lemma keep_step_fields:
  assumes "insert_imu_state env cfg b t qq pp s0 = Inr s1"
    and "if before = [] then s3 = add_vicon_factor cfg t qq pp R s1
         else add_preintegration env (last before) t (add_vicon_factor cfg t qq pp R s1) = Inr s3"
  shows "values_est s3 = (if b then (values_est s0)(X (state_index s0 t) \<mapsto>
                                     NavState (initial_imu_state env cfg qq pp))
                          else values_est s0)"
    "b \<longrightarrow> values_est s0 (X (state_index s0 t)) = None"
    "state_index s3 u = state_index s0 u"
    "timestamp_cameras s3 = timestamp_cameras s0"
    "ok_polls s3 = ok_polls s0"
    "values_result s3 = values_result s0"
proof -
  note f1 = insert_imu_state_fields[OF assms(1)]
  let ?s2 = "add_vicon_factor cfg t qq pp R s1"
  have "values_est s3 = values_est ?s2 \<and> state_index s3 u = state_index ?s2 u \<and>
        timestamp_cameras s3 = timestamp_cameras ?s2 \<and> ok_polls s3 = ok_polls ?s2 \<and>
        values_result s3 = values_result ?s2"
  proof (cases "before = []")
    case True
    with assms(2) show ?thesis by simp
  next
    case False
    with assms(2) have p: "add_preintegration env (last before) t ?s2 = Inr s3" by simp
    from add_preintegration_fields[OF p] show ?thesis by simp
  qed
  with f1 show "values_est s3 = (if b then (values_est s0)(X (state_index s0 t) \<mapsto>
                                     NavState (initial_imu_state env cfg qq pp))
                          else values_est s0)"
    "b \<longrightarrow> values_est s0 (X (state_index s0 t)) = None"
    "state_index s3 u = state_index s0 u"
    "timestamp_cameras s3 = timestamp_cameras s0"
    "ok_polls s3 = ok_polls s0"
    "values_result s3 = values_result s0"
    by (simp_all add: add_vicon_factor_fields)
qed

section \<open>The time-offset prior (claim C7)\<close>

lemma build_loop_priors:
  "build_loop env cfg b before rest s = Inr s' \<Longrightarrow>
   filter is_prior (graph s') = filter is_prior (graph s) \<and>
   values_est s' (T 0) = values_est s (T 0) \<and>
   (\<not> estimate_toff_vicon_to_imu cfg \<longrightarrow>
      (\<forall>f\<in>set (graph s'). T 0 \<in> set (factor_keys f) \<longrightarrow> f \<in> set (graph s)))"
proof (induction rest arbitrary: before s)
  case Nil
  then show ?case by auto
next
  case (Cons t rest)
  from Cons.prems show ?case
  proof (cases rule: build_loop_Cons_cases)
    case stop
    then show ?thesis by simp
  next
    case (skip tc msg)
    from Cons.IH[OF skip(4)] show ?thesis by (simp add: skip_timestamp_fields)
  next
    case (keep tc qq pp R s1 s3)
    note f1 = insert_imu_state_fields[OF keep(5)]
    let ?s2 = "add_vicon_factor cfg t qq pp R s1"
    have g2: "filter is_prior (graph ?s2) = filter is_prior (graph s)"
      "values_est ?s2 (T 0) = values_est s (T 0)"
      "\<not> estimate_toff_vicon_to_imu cfg \<longrightarrow>
         (\<forall>f\<in>set (graph ?s2). T 0 \<in> set (factor_keys f) \<longrightarrow> f \<in> set (graph s))"
      using f1 by (auto simp: add_vicon_factor_fields)
    have g3: "filter is_prior (graph s3) = filter is_prior (graph s) \<and>
      values_est s3 (T 0) = values_est s (T 0) \<and>
      (\<not> estimate_toff_vicon_to_imu cfg \<longrightarrow>
         (\<forall>f\<in>set (graph s3). T 0 \<in> set (factor_keys f) \<longrightarrow> f \<in> set (graph s)))"
    proof (cases "before = []")
      case True
      with keep(6) g2 show ?thesis by simp
    next
      case False
      with keep(6) have p: "add_preintegration env (last before) t ?s2 = Inr s3" by simp
      from add_preintegration_graph[OF p] add_preintegration_fields(2)[OF p] g2
      show ?thesis by (auto simp: imu_factor_def)
    qed
    from Cons.IH[OF keep(7)] g3 show ?thesis by auto
  qed
qed

text \<open>
  Claim C7, as amended. Every graph built with time-offset estimation enabled holds
  exactly one prior factor: it is on \<open>T 0\<close>, has sigma 0.02 and its mean is the value of
  \<open>T 0\<close> in the value set at build time, which is the configured initial offset when the
  states are initialised (round 0) and the value carried over from the last solve
  otherwise. With estimation disabled the graph holds no prior factor, no factor
  mentions \<open>T 0\<close>, and the entry of \<open>T 0\<close> in the value set is left as it was.
\<close>

theorem time_offset_prior:
  assumes "build_problem env cfg init_states s = Inr s'"
  shows "(estimate_toff_vicon_to_imu cfg \<longrightarrow>
            (\<exists>toff. values_est s' (T 0) = Some (Vector1 toff) \<and>
                    filter is_prior (graph s') = [PriorFactor (T 0) toff (2 / 100)] \<and>
                    (if init_states then toff = init_toff_imu_to_vicon cfg
                     else values_est s (T 0) = Some (Vector1 toff)))) \<and>
         (\<not> estimate_toff_vicon_to_imu cfg \<longrightarrow>
            filter is_prior (graph s') = [] \<and>
            (\<forall>f\<in>set (graph s'). T 0 \<notin> set (factor_keys f)) \<and>
            values_est s' (T 0) = values_est s (T 0))"
proof -
  from assms obtain s1 s2 s3 where
    c: "init_calibration cfg init_states
          ((info ''[BUILD]: building the graph (might take a while)'' s)\<lparr>graph := []\<rparr>) = Inr s1"
      "timeoffset_logic cfg init_states s1 = Inr s2" "gravity_logic cfg s2 = Inr s3"
      "build_loop env cfg init_states [] (timestamp_cameras s3) s3 = Inr s'"
    by (rule build_problem_Inr_cases)
  from init_calibration_Inr[OF c(1)] have f1: "graph s1 = []"
    "values_est s1 (T 0) = values_est s (T 0)"
    by (auto simp: info_def)
  note f2 = timeoffset_logic_Inr[OF c(2)]
  note f3 = gravity_logic_Inr[OF c(3)]
  note f4 = build_loop_priors[OF c(4)]
  show ?thesis
  proof (cases "estimate_toff_vicon_to_imu cfg")
    case True
    with f2 f1 obtain toff where t: "values_est s2 (T 0) = Some (Vector1 toff)"
      "graph s2 = [PriorFactor (T 0) toff (2 / 100)]"
      "values_est s2 = (if init_states
                        then (values_est s1)(T 0 \<mapsto> Vector1 (init_toff_imu_to_vicon cfg))
                        else values_est s1)"
      by auto
    from t(1,3) f1(2) have "if init_states then toff = init_toff_imu_to_vicon cfg
                     else values_est s (T 0) = Some (Vector1 toff)"
      by (auto split: if_splits)
    with True t f3 f4 show ?thesis by auto
  next
    case False
    with f2 have "s2 = s1" by simp
    with False f1 f3 f4 show ?thesis by auto
  qed
qed

theorem time_offset_prior_witness:
  "\<not> isl (build_problem demo_env (demo_cfg\<lparr>estimate_toff_vicon_to_imu := True\<rparr>) True
            (indexed_solver [1, 2])) \<and>
   filter is_prior
     (graph (projr (build_problem demo_env (demo_cfg\<lparr>estimate_toff_vicon_to_imu := True\<rparr>) True
                      (indexed_solver [1, 2])))) = [PriorFactor (T 0) 0 (2 / 100)] \<and>
   \<not> isl (build_problem demo_env demo_cfg True (indexed_solver [1, 2])) \<and>
   filter is_prior (graph (projr (build_problem demo_env demo_cfg True (indexed_solver [1, 2])))) = []"
proof -
  let ?r1 = "build_problem demo_env (demo_cfg\<lparr>estimate_toff_vicon_to_imu := True\<rparr>) True
               (indexed_solver [1, 2])"
  let ?r2 = "build_problem demo_env demo_cfg True (indexed_solver [1, 2])"
  have ok: "\<not> isl ?r1" "\<not> isl ?r2"
    by (simp_all add: demo_defs indexed_solver_def model_defs Let_def)
  then have e: "?r1 = Inr (projr ?r1)" "?r2 = Inr (projr ?r2)" by simp_all
  from time_offset_prior[OF e(1)] time_offset_prior[OF e(2)] ok show ?thesis
    by (auto simp: demo_cfg_def)
qed

text \<open>
  The claim as stated fails on a relinearization round: with one extra round and an
  optimizer that moves the offset from 0 to 1/2, the prior of the graph built last has
  mean 1/2, not the initial estimate 0.
\<close>

theorem prior_mean_follows_estimate:
  "\<not> isl (build_and_solve (demo_env\<lparr>optimize := \<lambda>g v. v(T 0 \<mapsto> Vector1 (1 / 2))\<rparr>)
            (demo_cfg\<lparr>estimate_toff_vicon_to_imu := True, num_loop_relin := 1\<rparr>)
            (fresh_solver [1, 2])) \<and>
   init_toff_imu_to_vicon (demo_cfg\<lparr>estimate_toff_vicon_to_imu := True, num_loop_relin := 1\<rparr>) = 0 \<and>
   filter is_prior
     (graph (projr (build_and_solve (demo_env\<lparr>optimize := \<lambda>g v. v(T 0 \<mapsto> Vector1 (1 / 2))\<rparr>)
                      (demo_cfg\<lparr>estimate_toff_vicon_to_imu := True, num_loop_relin := 1\<rparr>)
                      (fresh_solver [1, 2])))) = [PriorFactor (T 0) (1 / 2) (2 / 100)]"
  by (simp add: demo_defs model_defs relin_loop.simps Let_def)

section \<open>A NaN covariance of the preintegration (claim C4)\<close>

text \<open>
  Claim C4, as amended. When the Propagator meets its asserted contract and the
  covariance of the preintegrated measurement is NaN or has a NaN inverse, the step
  logs two error lines and returns normally: the inertial factor for the pair is added
  with that covariance, and values and timestamps are left as they were.
\<close>

theorem nan_imu_covariance_is_only_logged:
  assumes "at_JPLNavState (values_est s) (X (state_index s time0)) = Inr st"
    and "propagate env time0 time1 (nav_bg st) (nav_ba st) = (True, preint)"
    and "DT preint = double_minus env time1 time0"
    and "isnan_norm env (P_meas preint) \<or> isnan_inverse_norm env (P_meas preint)"
  shows "\<exists>s'. add_preintegration env time0 time1 s = Inr s' \<and>
           graph s' = graph s @ [imu_factor (state_index s time0) (state_index s time1) preint] \<and>
           ros_log s' = ros_log s @
             [ROS_ERROR ''R_imu is NAN | R.norm = %.3f | Rinv.norm = %.3f'',
              ROS_ERROR ''THIS SHOULD NEVER HAPPEN!@#!@#!@#!@#!#@''] \<and>
           values_est s' = values_est s \<and> timestamp_cameras s' = timestamp_cameras s"
proof -
  obtain i0 s1 where m0: "map_states_at time0 s = (i0, s1)" by (cases "map_states_at time0 s")
  then have i0: "i0 = state_index s time0" and s1: "s1 = snd (map_states_at time0 s)"
    using map_states_at_fst[of time0 s] by simp_all
  have v1: "values_est s1 = values_est s" by (simp add: s1 map_states_at_snd)
  from assms m0 i0 v1 have "\<not> isl (add_preintegration env time0 time1 s)"
    by (auto simp: add_preintegration_def Let_def split: prod.splits)
  then obtain s' where r: "add_preintegration env time0 time1 s = Inr s'"
    by (cases "add_preintegration env time0 time1 s") auto
  from add_preintegration_graph[OF r] add_preintegration_fields[OF r] assms r
  show ?thesis by auto
qed

theorem nan_imu_covariance_is_only_logged_witness:
  "\<exists>s'. add_preintegration (demo_env\<lparr>propagate := \<lambda>t0 t1 bg ba. (True, demo_preint (t1 - t0) 1)\<rparr>)
           1 2
           ((fresh_solver [1, 2])\<lparr>values_est :=
              [X 0 \<mapsto> NavState \<lparr>nav_q = (0, 0, 0, 1), nav_bg = (0, 0, 0), nav_v = (0, 0, 0),
                                 nav_ba = (0, 0, 0), nav_p = (0, 0, 0)\<rparr>]\<rparr>) = Inr s' \<and>
         graph s' = [imu_factor 0 0 (demo_preint 1 1)] \<and>
         ros_log s' = [ROS_ERROR ''R_imu is NAN | R.norm = %.3f | Rinv.norm = %.3f'',
                       ROS_ERROR ''THIS SHOULD NEVER HAPPEN!@#!@#!@#!@#!#@'']"
  using nan_imu_covariance_is_only_logged
    [where env = "demo_env\<lparr>propagate := \<lambda>t0 t1 bg ba. (True, demo_preint (t1 - t0) 1)\<rparr>"
       and ?time0.0 = 1 and ?time1.0 = 2
       and s = "(fresh_solver [1, 2])\<lparr>values_est :=
              [X 0 \<mapsto> NavState \<lparr>nav_q = (0, 0, 0, 1), nav_bg = (0, 0, 0), nav_v = (0, 0, 0),
                                 nav_ba = (0, 0, 0), nav_p = (0, 0, 0)\<rparr>]\<rparr>"
       and st = "\<lparr>nav_q = (0, 0, 0, 1), nav_bg = (0, 0, 0), nav_v = (0, 0, 0),
                                 nav_ba = (0, 0, 0), nav_p = (0, 0, 0)\<rparr>"
       and preint = "demo_preint 1 1"]
  by (simp add: demo_defs state_index_def at_JPLNavState_def) blast

text \<open>
  The claim as stated fails: with a Propagator whose covariance (matrix 1) has a NaN
  norm the whole run returns normally, the inertial factor with that covariance is in
  the graph and the error line is in the log.
\<close>

theorem nan_imu_covariance_run_continues:
  "\<not> isl (build_and_solve (demo_env\<lparr>propagate := \<lambda>t0 t1 bg ba. (True, demo_preint (t1 - t0) 1)\<rparr>)
            demo_cfg (fresh_solver [1, 2])) \<and>
   isnan_norm demo_env (P_meas (demo_preint 1 1)) \<and>
   imu_factor 0 1 (demo_preint 1 1) \<in>
     set (graph (projr (build_and_solve
                          (demo_env\<lparr>propagate := \<lambda>t0 t1 bg ba. (True, demo_preint (t1 - t0) 1)\<rparr>)
                          demo_cfg (fresh_solver [1, 2])))) \<and>
   ROS_ERROR ''THIS SHOULD NEVER HAPPEN!@#!@#!@#!@#!#@'' \<in>
     set (ros_log (projr (build_and_solve
                          (demo_env\<lparr>propagate := \<lambda>t0 t1 bg ba. (True, demo_preint (t1 - t0) 1)\<rparr>)
                          demo_cfg (fresh_solver [1, 2]))))"
  by (simp add: demo_defs model_defs relin_loop.simps Let_def imu_factor_def)

section \<open>Rounds of the relinearization loop and what a build seeds\<close>

lemma relin_loop_rounds:
  "num_loop_relin cfg < 2147483647 \<Longrightarrow>
   relin_loop env cfg i s = run_rounds env cfg (map (\<lambda>j. j = 0) [i..num_loop_relin cfg]) s"
proof (induction env cfg i s rule: relin_loop.induct)
  case (1 env cfg i s)
  show ?case
  proof (cases "i \<le> num_loop_relin cfg")
    case False
    then show ?thesis by (simp add: relin_loop_stop)
  next
    case True
    then have u: "[i..num_loop_relin cfg] = i # [i + 1..num_loop_relin cfg]"
      by (simp add: upto_rec1)
    from True "1.prems" have ni: "i \<noteq> 2147483647" by simp
    show ?thesis
    proof (cases "relin_round env cfg (i = 0) s")
      case (Inl e)
      with True u show ?thesis by (simp add: relin_loop_fail)
    next
      case (Inr s1)
      from "1.IH"[OF True Inr ni "1.prems"] True Inr ni u show ?thesis
        by (simp add: relin_loop_step)
    qed
  qed
qed

lemma build_loop_no_seed:
  "build_loop env cfg False before rest s = Inr s' \<Longrightarrow>
   values_est s' k = None \<or> values_est s' k = values_est s k"
proof (induction rest arbitrary: before s)
  case Nil
  then show ?case by auto
next
  case (Cons t rest)
  from Cons.prems show ?case
  proof (cases rule: build_loop_Cons_cases)
    case stop
    then show ?thesis by simp
  next
    case (skip tc msg)
    from Cons.IH[OF skip(4)] show ?thesis by (auto simp: skip_timestamp_fields split: if_splits)
  next
    case (keep tc qq pp R s1 s3)
    note f1 = insert_imu_state_fields[OF keep(5)]
    have "values_est s3 = values_est s"
    proof (cases "before = []")
      case True
      with keep(6) f1 show ?thesis by (simp add: add_vicon_factor_fields)
    next
      case False
      with keep(6) have "add_preintegration env (last before) t (add_vicon_factor cfg t qq pp R s1) = Inr s3"
        by simp
      from add_preintegration_fields(2)[OF this] f1 show ?thesis
        by (simp add: add_vicon_factor_fields)
    qed
    with Cons.IH[OF keep(7)] show ?thesis by simp
  qed
qed

lemma build_problem_no_seed:
  assumes "build_problem env cfg False s = Inr s'"
  shows "values_est s' k = None \<or> values_est s' k = values_est s k"
proof -
  from assms obtain s1 s2 s3 where
    c: "init_calibration cfg False
          ((info ''[BUILD]: building the graph (might take a while)'' s)\<lparr>graph := []\<rparr>) = Inr s1"
      "timeoffset_logic cfg False s1 = Inr s2" "gravity_logic cfg s2 = Inr s3"
      "build_loop env cfg False [] (timestamp_cameras s3) s3 = Inr s'"
    by (rule build_problem_Inr_cases)
  from init_calibration_Inr[OF c(1)] timeoffset_logic_Inr[OF c(2)] gravity_logic_Inr[OF c(3)]
  have "values_est s3 = values_est s" by (auto simp: info_def split: if_splits)
  with build_loop_no_seed[OF c(4), of k] show ?thesis by simp
qed

lemma build_loop_other_keys:
  "build_loop env cfg b before rest s = Inr s' \<Longrightarrow> \<forall>i. k \<noteq> X i \<Longrightarrow>
   values_est s' k = values_est s k"
proof (induction rest arbitrary: before s)
  case Nil
  then show ?case by auto
next
  case (Cons t rest)
  from Cons.prems(1) show ?case
  proof (cases rule: build_loop_Cons_cases)
    case stop
    then show ?thesis by simp
  next
    case (skip tc msg)
    from Cons.IH[OF skip(4) Cons.prems(2)] Cons.prems(2) show ?thesis
      by (simp add: skip_timestamp_fields)
  next
    case (keep tc qq pp R s1 s3)
    from keep_step_fields(1)[OF keep(5) keep(6)] Cons.prems(2)
    have "values_est s3 k = values_est s k" by simp
    with Cons.IH[OF keep(7) Cons.prems(2)] show ?thesis by simp
  qed
qed

lemma build_problem_seeds:
  assumes "build_problem env cfg True s = Inr s'"
  shows "values_est s' (C 0) = Some (Rot3 (init_R_BtoI cfg)) \<and>
         values_est s' (C 1) = Some (Vector3 (init_p_BinI cfg)) \<and>
         values_est s' (G 0) = Some (Vector3 (init_grav_inV cfg)) \<and>
         (estimate_toff_vicon_to_imu cfg \<longrightarrow>
            values_est s' (T 0) = Some (Vector1 (init_toff_imu_to_vicon cfg)))"
proof -
  from assms obtain s1 s2 s3 where
    c: "init_calibration cfg True
          ((info ''[BUILD]: building the graph (might take a while)'' s)\<lparr>graph := []\<rparr>) = Inr s1"
      "timeoffset_logic cfg True s1 = Inr s2" "gravity_logic cfg s2 = Inr s3"
      "build_loop env cfg True [] (timestamp_cameras s3) s3 = Inr s'"
    by (rule build_problem_Inr_cases)
  from init_calibration_Inr[OF c(1)] have v1:
    "values_est s1 (C 0) = Some (Rot3 (init_R_BtoI cfg))"
    "values_est s1 (C 1) = Some (Vector3 (init_p_BinI cfg))"
    "values_est s1 (G 0) = Some (Vector3 (init_grav_inV cfg))"
    by simp_all
  from timeoffset_logic_Inr[OF c(2)] v1 have v2:
    "values_est s2 (C 0) = Some (Rot3 (init_R_BtoI cfg))"
    "values_est s2 (C 1) = Some (Vector3 (init_p_BinI cfg))"
    "values_est s2 (G 0) = Some (Vector3 (init_grav_inV cfg))"
    "estimate_toff_vicon_to_imu cfg \<longrightarrow>
       values_est s2 (T 0) = Some (Vector1 (init_toff_imu_to_vicon cfg))"
    by (auto split: if_splits)
  from gravity_logic_Inr[OF c(3)] have "values_est s3 = values_est s2" by simp
  with v2 build_loop_other_keys[OF c(4), of "C 0"] build_loop_other_keys[OF c(4), of "C 1"]
    build_loop_other_keys[OF c(4), of "G 0"] build_loop_other_keys[OF c(4), of "T 0"]
  show ?thesis by simp
qed

section \<open>Pruning on the vicon pose (claim C3)\<close>

lemma corrected_time_offset:
  "corrected_time cfg vs t = Inr tc \<Longrightarrow> tc = t + offset_in_force cfg False vs"
  by (auto simp: corrected_time_def offset_in_force_def at_Vector1_def
      split: if_splits sum.splits option.splits val.splits)

lemma offset_in_force_cong:
  "vs (T 0) = vs' (T 0) \<Longrightarrow> offset_in_force cfg b vs = offset_in_force cfg b vs'"
  by (simp add: offset_in_force_def)

lemma corrected_time_cong:
  "vs (T 0) = vs' (T 0) \<Longrightarrow> corrected_time cfg vs t = corrected_time cfg vs' t"
  by (simp add: corrected_time_def at_Vector1_def)

lemma build_loop_filter:
  "build_loop env cfg b before rest s = Inr s' \<Longrightarrow> \<forall>n. ros_ok env n \<Longrightarrow>
   timestamp_cameras s' =
     before @ filter (\<lambda>t. \<not> pose_rejected env (t + offset_in_force cfg False (values_est s))) rest"
proof (induction rest arbitrary: before s)
  case Nil
  then show ?case by auto
next
  case (Cons t rest)
  let ?s0 = "s\<lparr>ok_polls := Suc (ok_polls s)\<rparr>"
  from Cons.prems(1) show ?case
  proof (cases rule: build_loop_Cons_cases)
    case stop
    with Cons.prems(2) show ?thesis by simp
  next
    case (skip tc msg)
    have o: "offset_in_force cfg False (values_est (skip_timestamp msg t ?s0)) =
             offset_in_force cfg False (values_est s)"
      by (rule offset_in_force_cong) (simp add: skip_timestamp_fields)
    from corrected_time_offset[OF skip(2)] skip(3)
    have "pose_rejected env (t + offset_in_force cfg False (values_est s))" by simp
    with Cons.IH[OF skip(4) Cons.prems(2)] o show ?thesis by simp
  next
    case (keep tc qq pp R s1 s3)
    from keep_step_fields(1)[OF keep(5) keep(6)]
    have "values_est s3 (T 0) = values_est s (T 0)" by simp
    then have o: "offset_in_force cfg False (values_est s3) = offset_in_force cfg False (values_est s)"
      by (rule offset_in_force_cong)
    from corrected_time_offset[OF keep(2)] keep(3)
    have "\<not> pose_rejected env (t + offset_in_force cfg False (values_est s))" by simp
    with Cons.IH[OF keep(7) Cons.prems(2)] o show ?thesis by simp
  qed
qed

lemma build_loop_stays_absent:
  "build_loop env cfg b before rest s = Inr s' \<Longrightarrow> values_est s k = None \<Longrightarrow>
   \<forall>u\<in>set rest. \<not> pose_rejected env (u + offset_in_force cfg False (values_est s)) \<longrightarrow>
      k \<noteq> X (state_index s u) \<Longrightarrow>
   values_est s' k = None"
proof (induction rest arbitrary: before s)
  case Nil
  then show ?case by auto
next
  case (Cons t rest)
  let ?s0 = "s\<lparr>ok_polls := Suc (ok_polls s)\<rparr>"
  from Cons.prems(1) show ?case
  proof (cases rule: build_loop_Cons_cases)
    case stop
    with Cons.prems(2) show ?thesis by simp
  next
    case (skip tc msg)
    let ?s1 = "skip_timestamp msg t ?s0"
    have o: "offset_in_force cfg False (values_est ?s1) = offset_in_force cfg False (values_est s)"
      by (rule offset_in_force_cong) (simp add: skip_timestamp_fields)
    have v: "values_est ?s1 k = None" using Cons.prems(2) by (simp add: skip_timestamp_fields)
    have "\<forall>u\<in>set rest. \<not> pose_rejected env (u + offset_in_force cfg False (values_est ?s1)) \<longrightarrow>
            k \<noteq> X (state_index ?s1 u)"
      using Cons.prems(3) o by (simp add: skip_timestamp_fields state_index_simps)
    from Cons.IH[OF skip(4) v this] show ?thesis .
  next
    case (keep tc qq pp R s1 s3)
    note f = keep_step_fields[OF keep(5) keep(6)]
    from f(1) have "values_est s3 (T 0) = values_est s (T 0)" by simp
    then have o: "offset_in_force cfg False (values_est s3) = offset_in_force cfg False (values_est s)"
      by (rule offset_in_force_cong)
    from corrected_time_offset[OF keep(2)] keep(3)
    have "\<not> pose_rejected env (t + offset_in_force cfg False (values_est s))" by simp
    with Cons.prems(3) have "k \<noteq> X (state_index s t)" by simp
    with f(1) Cons.prems(2) have v: "values_est s3 k = None"
      by (simp add: state_index_simps)
    have "\<forall>u\<in>set rest. \<not> pose_rejected env (u + offset_in_force cfg False (values_est s3)) \<longrightarrow>
            k \<noteq> X (state_index s3 u)"
      using Cons.prems(3) o f(3) by (simp add: state_index_simps)
    from Cons.IH[OF keep(7) v this] show ?thesis .
  qed
qed

lemma build_loop_erased:
  "build_loop env cfg b before rest s = Inr s' \<Longrightarrow> \<forall>n. ros_ok env n \<Longrightarrow>
   inj_on (state_index s) (set rest) \<Longrightarrow> t \<in> set rest \<Longrightarrow>
   pose_rejected env (t + offset_in_force cfg False (values_est s)) \<Longrightarrow>
   values_est s' (X (state_index s t)) = None"
proof (induction rest arbitrary: before s)
  case Nil
  then show ?case by auto
next
  case (Cons a rest)
  let ?s0 = "s\<lparr>ok_polls := Suc (ok_polls s)\<rparr>"
  from Cons.prems(3) have inj: "inj_on (state_index s) (set rest)" by (simp add: inj_on_def)
  from Cons.prems(1) show ?case
  proof (cases rule: build_loop_Cons_cases)
    case stop
    with Cons.prems(2) show ?thesis by simp
  next
    case (skip tc msg)
    let ?s1 = "skip_timestamp msg a ?s0"
    have o: "offset_in_force cfg False (values_est ?s1) = offset_in_force cfg False (values_est s)"
      by (rule offset_in_force_cong) (simp add: skip_timestamp_fields)
    have si: "\<And>u. state_index ?s1 u = state_index s u"
      by (simp add: skip_timestamp_fields state_index_simps)
    show ?thesis
    proof (cases "t \<in> set rest")
      case True
      have "inj_on (state_index ?s1) (set rest)" using inj si by (simp add: inj_on_def)
      from Cons.IH[OF skip(4) Cons.prems(2) this True] Cons.prems(5) o si show ?thesis by simp
    next
      case False
      with Cons.prems(4) have ta: "t = a" by simp
      have v: "values_est ?s1 (X (state_index s t)) = None"
        using ta by (simp add: skip_timestamp_fields state_index_simps)
      have "\<forall>u\<in>set rest. \<not> pose_rejected env (u + offset_in_force cfg False (values_est ?s1)) \<longrightarrow>
              X (state_index s t) \<noteq> X (state_index ?s1 u)"
      proof (intro ballI impI)
        fix u assume u: "u \<in> set rest"
          "\<not> pose_rejected env (u + offset_in_force cfg False (values_est ?s1))"
        with o Cons.prems(5) have "u \<noteq> t" by auto
        with Cons.prems(3) u(1) ta have "state_index s u \<noteq> state_index s t"
          by (auto simp: inj_on_def)
        with si show "X (state_index s t) \<noteq> X (state_index ?s1 u)" by simp
      qed
      from build_loop_stays_absent[OF skip(4) v this] show ?thesis .
    qed
  next
    case (keep tc qq pp R s1 s3)
    note f = keep_step_fields[OF keep(5) keep(6)]
    from f(1) have "values_est s3 (T 0) = values_est s (T 0)" by simp
    then have o: "offset_in_force cfg False (values_est s3) = offset_in_force cfg False (values_est s)"
      by (rule offset_in_force_cong)
    have si: "\<And>u. state_index s3 u = state_index s u"
      using f(3) by (simp add: state_index_simps)
    from corrected_time_offset[OF keep(2)] keep(3)
    have "\<not> pose_rejected env (a + offset_in_force cfg False (values_est s))" by simp
    with Cons.prems(5) have "t \<noteq> a" by auto
    with Cons.prems(4) have tr: "t \<in> set rest" by simp
    have "inj_on (state_index s3) (set rest)" using inj si by (simp add: inj_on_def)
    from Cons.IH[OF keep(7) Cons.prems(2) this tr] Cons.prems(5) o si show ?thesis by simp
  qed
qed

lemma build_loop_skip:
  assumes "ros_ok env (ok_polls s)" "corrected_time cfg (values_est s) t = Inr tc"
    "pose_rejected env tc"
  shows "\<exists>msg. build_loop env cfg b before (t # rest) s =
           build_loop env cfg b before rest (skip_timestamp msg t (s\<lparr>ok_polls := Suc (ok_polls s)\<rparr>))"
proof (cases "lookup_vicon env tc")
  case None
  with assms(1,2) show ?thesis by auto
next
  case (Some pose)
  obtain qq pp R where pose: "pose = (qq, pp, R)" by (cases pose) auto
  from Some pose have "get_pose env tc = Some (qq, pp, R)"
    "get_pose env (tc - 1) \<noteq> None" "get_pose env (tc + 1) \<noteq> None"
    by (auto simp: lookup_vicon_def Let_def split: if_splits)
  with assms(3) have "isnan_norm env R \<or> isnan_inverse_norm env R"
    by (simp add: pose_rejected_def)
  with Some pose assms(1,2) show ?thesis by auto
qed

lemma build_problem_prelude:
  assumes "init_calibration cfg b
             ((info ''[BUILD]: building the graph (might take a while)'' s)\<lparr>graph := []\<rparr>) = Inr s1"
    and "timeoffset_logic cfg b s1 = Inr s2" and "gravity_logic cfg s2 = Inr s3"
  shows "timestamp_cameras s3 = timestamp_cameras s"
    "state_index s3 u = state_index s u"
    "offset_in_force cfg False (values_est s3) = offset_in_force cfg b (values_est s)"
    "values_est s3 (X i) = values_est s (X i)"
    "\<forall>f\<in>set (graph s3). \<exists>k. factor_keys f = [k]"
proof -
  note f1 = init_calibration_Inr[OF assms(1)]
  note f2 = timeoffset_logic_Inr[OF assms(2)]
  note f3 = gravity_logic_Inr[OF assms(3)]
  from f1 f2 f3 show "timestamp_cameras s3 = timestamp_cameras s" by (simp add: info_def)
  from f1 f2 f3 have "map_states s3 = map_states s" by (simp add: info_def)
  then show "state_index s3 u = state_index s u" by (simp add: state_index_def)
  from f1 have v1: "values_est s1 (T 0) = values_est s (T 0)" "values_est s1 (X i) = values_est s (X i)"
    by (auto simp: info_def)
  from f2 v1 have v2: "values_est s2 (X i) = values_est s (X i)"
    by (auto split: if_splits)
  with f3 show "values_est s3 (X i) = values_est s (X i)" by simp
  show "offset_in_force cfg False (values_est s3) = offset_in_force cfg b (values_est s)"
  proof (cases "estimate_toff_vicon_to_imu cfg")
    case False
    then show ?thesis by (simp add: offset_in_force_def)
  next
    case True
    with f2 f3 v1 show ?thesis by (auto simp: offset_in_force_def split: if_splits)
  qed
  from f1 have "graph s1 = []" by (simp add: info_def)
  with f2 f3 show "\<forall>f\<in>set (graph s3). \<exists>k. factor_keys f = [k]"
    by (auto split: if_splits)
qed

lemma index_loop_inj:
  "inj_on m (dom m) \<Longrightarrow> \<forall>t j. m t = Some j \<longrightarrow> j < i \<Longrightarrow>
   inj_on (index_loop ts i m) (dom (index_loop ts i m)) \<and>
   (\<forall>t j. index_loop ts i m t = Some j \<longrightarrow> j < i + length ts)"
proof (induction ts arbitrary: i m)
  case Nil
  then show ?case by simp
next
  case (Cons a ts)
  let ?m = "case m a of None \<Rightarrow> m(a \<mapsto> i) | Some j \<Rightarrow> m"
  have b: "\<forall>t j. ?m t = Some j \<longrightarrow> j < Suc i"
    using Cons.prems(2) by (auto split: option.splits if_splits simp: less_Suc_eq)
  have inj: "inj_on ?m (dom ?m)"
  proof (cases "m a")
    case (Some j)
    with Cons.prems(1) show ?thesis by simp
  next
    case None
    have "inj_on (m(a \<mapsto> i)) (dom (m(a \<mapsto> i)))"
    proof (rule inj_onI)
      fix x y
      assume x: "x \<in> dom (m(a \<mapsto> i))" and y: "y \<in> dom (m(a \<mapsto> i))"
        and e: "(m(a \<mapsto> i)) x = (m(a \<mapsto> i)) y"
      show "x = y"
      proof (cases "x = a")
        case True
        show ?thesis
        proof (rule ccontr)
          assume "x \<noteq> y"
          with True e have "m y = Some i" by (simp split: if_splits)
          with Cons.prems(2) have "i < i" by blast
          then show False by simp
        qed
      next
        case False
        have ya: "y \<noteq> a"
        proof
          assume "y = a"
          with False e have "m x = Some i" by (simp split: if_splits)
          with Cons.prems(2) have "i < i" by blast
          then show False by simp
        qed
        with False x y e have "x \<in> dom m" "y \<in> dom m" "m x = m y" by auto
        with Cons.prems(1) show ?thesis by (auto dest: inj_onD)
      qed
    qed
    with None show ?thesis by simp
  qed
  from Cons.IH[OF inj b] show ?case by simp
qed

lemma index_loop_state_index_inj:
  "inj_on (state_index (s\<lparr>map_states := index_loop ts 0 Map.empty\<rparr>)) (set ts)"
proof (rule inj_onI)
  let ?m = "index_loop ts 0 Map.empty"
  fix x y
  assume x: "x \<in> set ts" and y: "y \<in> set ts"
    and e: "state_index (s\<lparr>map_states := ?m\<rparr>) x = state_index (s\<lparr>map_states := ?m\<rparr>) y"
  have d: "dom ?m = set ts" by (simp add: index_loop_dom)
  with x y obtain j k where jk: "?m x = Some j" "?m y = Some k" by blast
  with e have "?m x = ?m y" by (simp add: state_index_def)
  moreover have "inj_on ?m (dom ?m)"
    using index_loop_inj[of Map.empty 0 ts] by simp
  ultimately show "x = y" using x y d by (auto dest: inj_onD)
qed

text \<open>
  Claim C3. A timestamp is rejected when one of the three interpolator queries, at the
  corrected time minus one second, plus one second and at the corrected time itself,
  fails, or the covariance of the pose is NaN or has a NaN inverse. For a build pass that
  returns: the timestamp vector afterwards is a subsequence of the one before (nothing is
  added); if the stop signal is never raised it is the vector before without exactly the
  rejected timestamps, and (the keys of the timestamps being distinct, as they are under
  the index map of lines 131-134) the state variable of every rejected timestamp is
  absent from the value set. The pruning is no error: in an iteration that meets a
  rejected timestamp, the result of the loop is the result of the loop on the remaining
  timestamps, run from the state in which that timestamp's state variable is erased and
  the timestamp vector is untouched otherwise.
\<close>

theorem vicon_pruning:
  assumes "build_problem env cfg init_states s = Inr s'"
  shows "subseq (timestamp_cameras s') (timestamp_cameras s) \<and>
         ((\<forall>n. ros_ok env n) \<longrightarrow>
            timestamp_cameras s' =
              filter (\<lambda>t. \<not> pose_rejected env (t + offset_in_force cfg init_states (values_est s)))
                (timestamp_cameras s) \<and>
            (inj_on (state_index s) (set (timestamp_cameras s)) \<longrightarrow>
               (\<forall>t\<in>set (timestamp_cameras s).
                  pose_rejected env (t + offset_in_force cfg init_states (values_est s)) \<longrightarrow>
                  values_est s' (X (state_index s t)) = None))) \<and>
         (\<forall>s0 t tc before rest.
            ros_ok env (ok_polls s0) \<and> corrected_time cfg (values_est s0) t = Inr tc \<and>
            pose_rejected env tc \<longrightarrow>
            (\<exists>msg. build_loop env cfg init_states before (t # rest) s0 =
                     build_loop env cfg init_states before rest
                       (skip_timestamp msg t (s0\<lparr>ok_polls := Suc (ok_polls s0)\<rparr>)) \<and>
                   values_est (skip_timestamp msg t (s0\<lparr>ok_polls := Suc (ok_polls s0)\<rparr>)) =
                     (values_est s0)((X (state_index s0 t)) := None) \<and>
                   timestamp_cameras (skip_timestamp msg t (s0\<lparr>ok_polls := Suc (ok_polls s0)\<rparr>)) =
                     timestamp_cameras s0)) \<and>
         (\<forall>ts. inj_on (state_index (s\<lparr>map_states := index_loop ts 0 Map.empty\<rparr>)) (set ts))"
proof -
  from assms obtain s1 s2 s3 where
    c: "init_calibration cfg init_states
          ((info ''[BUILD]: building the graph (might take a while)'' s)\<lparr>graph := []\<rparr>) = Inr s1"
      "timeoffset_logic cfg init_states s1 = Inr s2" "gravity_logic cfg s2 = Inr s3"
      "build_loop env cfg init_states [] (timestamp_cameras s3) s3 = Inr s'"
    by (rule build_problem_Inr_cases)
  note p = build_problem_prelude[OF c(1,2,3)]
  let ?off = "offset_in_force cfg init_states (values_est s)"
  have a: "subseq (timestamp_cameras s') (timestamp_cameras s)"
    using build_loop_subseq[OF c(4)] p(1) by simp
  have b: "(\<forall>n. ros_ok env n) \<longrightarrow>
            timestamp_cameras s' = filter (\<lambda>t. \<not> pose_rejected env (t + ?off)) (timestamp_cameras s) \<and>
            (inj_on (state_index s) (set (timestamp_cameras s)) \<longrightarrow>
               (\<forall>t\<in>set (timestamp_cameras s). pose_rejected env (t + ?off) \<longrightarrow>
                  values_est s' (X (state_index s t)) = None))"
  proof (intro impI conjI ballI)
    assume ok: "\<forall>n. ros_ok env n"
    from build_loop_filter[OF c(4) ok] p(1,3)
    show "timestamp_cameras s' = filter (\<lambda>t. \<not> pose_rejected env (t + ?off)) (timestamp_cameras s)"
      by simp
    fix t
    assume inj: "inj_on (state_index s) (set (timestamp_cameras s))"
      and t: "t \<in> set (timestamp_cameras s)" and rej: "pose_rejected env (t + ?off)"
    have "state_index s3 = state_index s" using p(2) by (rule ext)
    with inj p(1) have i3: "inj_on (state_index s3) (set (timestamp_cameras s3))" by simp
    from build_loop_erased[OF c(4) ok i3, of t] t rej p(1,2,3)
    show "values_est s' (X (state_index s t)) = None" by simp
  qed
  have d: "\<forall>s0 t tc before rest.
            ros_ok env (ok_polls s0) \<and> corrected_time cfg (values_est s0) t = Inr tc \<and>
            pose_rejected env tc \<longrightarrow>
            (\<exists>msg. build_loop env cfg init_states before (t # rest) s0 =
                     build_loop env cfg init_states before rest
                       (skip_timestamp msg t (s0\<lparr>ok_polls := Suc (ok_polls s0)\<rparr>)) \<and>
                   values_est (skip_timestamp msg t (s0\<lparr>ok_polls := Suc (ok_polls s0)\<rparr>)) =
                     (values_est s0)((X (state_index s0 t)) := None) \<and>
                   timestamp_cameras (skip_timestamp msg t (s0\<lparr>ok_polls := Suc (ok_polls s0)\<rparr>)) =
                     timestamp_cameras s0)"
  proof (intro allI impI)
    fix s0 :: "'a solver" and t tc before rest
    assume h: "ros_ok env (ok_polls s0) \<and> corrected_time cfg (values_est s0) t = Inr tc \<and>
               pose_rejected env tc"
    then obtain msg where
      "build_loop env cfg init_states before (t # rest) s0 =
         build_loop env cfg init_states before rest
           (skip_timestamp msg t (s0\<lparr>ok_polls := Suc (ok_polls s0)\<rparr>))"
      using build_loop_skip[of env s0 cfg t tc init_states before rest] by blast
    then show "\<exists>msg. build_loop env cfg init_states before (t # rest) s0 =
                     build_loop env cfg init_states before rest
                       (skip_timestamp msg t (s0\<lparr>ok_polls := Suc (ok_polls s0)\<rparr>)) \<and>
                   values_est (skip_timestamp msg t (s0\<lparr>ok_polls := Suc (ok_polls s0)\<rparr>)) =
                     (values_est s0)((X (state_index s0 t)) := None) \<and>
                   timestamp_cameras (skip_timestamp msg t (s0\<lparr>ok_polls := Suc (ok_polls s0)\<rparr>)) =
                     timestamp_cameras s0"
      by (auto simp: skip_timestamp_fields state_index_simps)
  qed
  have e: "\<forall>ts. inj_on (state_index (s\<lparr>map_states := index_loop ts 0 Map.empty\<rparr>)) (set ts)"
    by (simp add: index_loop_state_index_inj)
  from a b d e show ?thesis by blast
qed

theorem vicon_pruning_witness:
  "\<not> isl (build_problem demo_env demo_cfg True (indexed_solver [1, 2, 7, 10])) \<and>
   (\<forall>n. ros_ok demo_env n) \<and>
   inj_on (state_index (indexed_solver [1, 2, 7, 10])) (set (timestamp_cameras (indexed_solver [1, 2, 7, 10]))) \<and>
   pose_rejected demo_env 7 \<and> pose_rejected demo_env 10 \<and>
   timestamp_cameras (projr (build_problem demo_env demo_cfg True (indexed_solver [1, 2, 7, 10]))) = [1, 2] \<and>
   values_est (projr (build_problem demo_env demo_cfg True (indexed_solver [1, 2, 7, 10]))) (X 2) = None"
proof -
  let ?s = "indexed_solver [1, 2, 7, 10]"
  let ?r = "build_problem demo_env demo_cfg True ?s"
  have ok: "\<not> isl ?r"
    by (simp add: demo_defs indexed_solver_def model_defs Let_def)
  then have e: "?r = Inr (projr ?r)" by simp
  have ro: "\<forall>n. ros_ok demo_env n" by (simp add: demo_env_def)
  have inj: "inj_on (state_index ?s) (set (timestamp_cameras ?s))"
    by (simp add: indexed_solver_def fresh_solver_def state_index_def)
  have off: "offset_in_force demo_cfg True (values_est ?s) = 0"
    by (simp add: offset_in_force_def demo_cfg_def)
  have rej: "pose_rejected demo_env 7" "pose_rejected demo_env 10"
    "\<not> pose_rejected demo_env 1" "\<not> pose_rejected demo_env 2"
    by (simp_all add: pose_rejected_def demo_env_def)
  have i7: "state_index ?s 7 = 2" "7 \<in> set (timestamp_cameras ?s)"
    "timestamp_cameras ?s = [1, 2, 7, 10]"
    by (simp_all add: indexed_solver_def fresh_solver_def state_index_def)
  from vicon_pruning[OF e, THEN conjunct2, THEN conjunct1] ro inj
  have "timestamp_cameras (projr ?r) = [1, 2]" "values_est (projr ?r) (X (state_index ?s 7)) = None"
    using off rej i7 by auto
  with ok ro inj rej i7 show ?thesis by simp
qed

section \<open>Which interpolated pose is used (claim C10)\<close>







section \<open>The asserted contract of the Propagator (claim C8)\<close>

lemma add_preintegration_assert:
  "(\<exists>a l. add_preintegration env t0 t1 s = Inl (AssertionFailed a, l)) \<longleftrightarrow>
   (\<exists>st. values_est s (X (state_index s t0)) = Some (NavState st) \<and>
         \<not> contract_met env t0 t1 (nav_bg st) (nav_ba st))"
proof -
  obtain i0 s1 where m0: "map_states_at t0 s = (i0, s1)" by (cases "map_states_at t0 s")
  then have i0: "i0 = state_index s t0" and s1: "s1 = snd (map_states_at t0 s)"
    using map_states_at_fst[of t0 s] by simp_all
  have v1: "values_est s1 = values_est s" by (simp add: s1 map_states_at_snd)
  show ?thesis
  proof (cases "at_JPLNavState (values_est s) (X i0)")
    case (Inl e)
    then have "is_exception e" by (rule at_JPLNavState_Inl)
    then have ne: "\<And>a. e \<noteq> AssertionFailed a" by auto
    from Inl have "\<And>st. values_est s (X i0) \<noteq> Some (NavState st)"
      by (auto simp: at_JPLNavState_def)
    with Inl m0 v1 ne i0 show ?thesis
      by (auto simp: add_preintegration_def throw_def)
  next
    case (Inr st)
    then have st: "values_est s (X i0) = Some (NavState st)"
      by (auto simp: at_JPLNavState_def split: option.splits val.splits)
    obtain has_imu pre where pr: "propagate env t0 t1 (nav_bg st) (nav_ba st) = (has_imu, pre)"
      by (cases "propagate env t0 t1 (nav_bg st) (nav_ba st)")
    from Inr m0 v1 pr st i0 show ?thesis
      by (auto simp: add_preintegration_def throw_def contract_met_def Let_def
          split: prod.splits)
  qed
qed

lemma build_loop_Cons_outcome:
  assumes "build_loop env cfg b before (t # rest) s = r"
  obtains
    (stop) s' where "r = Inr s'" "\<not> ros_ok env (ok_polls s)"
  | (exc) e l where "r = Inl (e, l)" "is_exception e"
  | (skip) tc msg where "ros_ok env (ok_polls s)"
      "corrected_time cfg (values_est s) t = Inr tc" "pose_rejected env tc"
      "r = build_loop env cfg b before rest
             (skip_timestamp msg t (s\<lparr>ok_polls := Suc (ok_polls s)\<rparr>))"
  | (keep) tc qq pp R s1 s3 where "ros_ok env (ok_polls s)"
      "corrected_time cfg (values_est s) t = Inr tc" "\<not> pose_rejected env tc"
      "get_pose env tc = Some (qq, pp, R)"
      "insert_imu_state env cfg b t qq pp (s\<lparr>ok_polls := Suc (ok_polls s)\<rparr>) = Inr s1"
      "if before = [] then s3 = add_vicon_factor cfg t qq pp R s1
       else add_preintegration env (last before) t (add_vicon_factor cfg t qq pp R s1) = Inr s3"
      "r = build_loop env cfg b (before @ [t]) rest s3"
  | (fail) tc qq pp R s1 e where "ros_ok env (ok_polls s)"
      "corrected_time cfg (values_est s) t = Inr tc" "\<not> pose_rejected env tc"
      "get_pose env tc = Some (qq, pp, R)"
      "insert_imu_state env cfg b t qq pp (s\<lparr>ok_polls := Suc (ok_polls s)\<rparr>) = Inr s1"
      "before \<noteq> []"
      "add_preintegration env (last before) t (add_vicon_factor cfg t qq pp R s1) = Inl e"
      "r = Inl e"
proof (cases "ros_ok env (ok_polls s)")
  case False
  with assms have
    "r = Inr (s\<lparr>ok_polls := Suc (ok_polls s), timestamp_cameras := before @ t # rest\<rparr>)"
    by simp
  with False stop show ?thesis by blast
next
  case ok: True
  let ?s0 = "s\<lparr>ok_polls := Suc (ok_polls s)\<rparr>"
  show ?thesis
  proof (cases "corrected_time cfg (values_est s) t")
    case (Inl e)
    then have "is_exception e" by (rule corrected_time_Inl)
    moreover from Inl ok assms have "r = Inl (e, ros_log ?s0)" by (simp add: throw_def)
    ultimately show ?thesis using exc by blast
  next
    case tc: (Inr tc)
    show ?thesis
    proof (cases "lookup_vicon env tc")
      case None
      then have rej: "pose_rejected env tc"
        by (auto simp: lookup_vicon_def pose_rejected_def Let_def split: if_splits)
      from None ok tc assms have
        "r = build_loop env cfg b before rest
           (skip_timestamp ''    - skipping camera time %.9f (no vicon pose found)'' t ?s0)"
        by simp
      with ok tc rej skip show ?thesis by blast
    next
      case (Some pose)
      obtain qq pp R where pose: "pose = (qq, pp, R)" by (cases pose) auto
      from Some pose have gp: "get_pose env tc = Some (qq, pp, R)"
        and av: "get_pose env (tc - 1) \<noteq> None" "get_pose env (tc + 1) \<noteq> None"
        by (auto simp: lookup_vicon_def Let_def split: if_splits)
      show ?thesis
      proof (cases "isnan_norm env R \<or> isnan_inverse_norm env R")
        case True
        with gp have rej: "pose_rejected env tc" by (simp add: pose_rejected_def)
        from True Some pose ok tc assms have
          "r = build_loop env cfg b before rest
             (skip_timestamp ''    - skipping camera time %.9f (R.norm = %.3f | Rinv.norm = %.3f)''
                t ?s0)"
          by auto
        with ok tc rej skip show ?thesis by blast
      next
        case good: False
        with gp av have nrej: "\<not> pose_rejected env tc" by (simp add: pose_rejected_def)
        show ?thesis
        proof (cases "insert_imu_state env cfg b t qq pp ?s0")
          case (Inl e)
          obtain e1 l1 where e: "e = (e1, l1)" by (cases e)
          with Inl have "is_exception e1" by (auto dest: insert_imu_state_Inl)
          moreover from Inl ok tc Some pose good assms e have "r = Inl (e1, l1)" by auto
          ultimately show ?thesis using exc by blast
        next
          case s1: (Inr s1)
          show ?thesis
          proof (cases "before = []")
            case True
            with ok tc Some pose good s1 assms have
              "r = build_loop env cfg b (before @ [t]) rest (add_vicon_factor cfg t qq pp R s1)"
              by (auto simp: Let_def)
            with ok tc nrej gp s1 True keep[of tc qq pp R s1 "add_vicon_factor cfg t qq pp R s1"]
            show ?thesis by simp
          next
            case ne: False
            show ?thesis
            proof (cases "add_preintegration env (last before) t (add_vicon_factor cfg t qq pp R s1)")
              case (Inl e)
              with ok tc Some pose good s1 ne assms have "r = Inl e" by (auto simp: Let_def)
              with ok tc nrej gp s1 ne Inl fail[of tc qq pp R s1 e] show ?thesis by simp
            next
              case s3: (Inr s3)
              with ok tc Some pose good s1 ne assms have
                "r = build_loop env cfg b (before @ [t]) rest s3"
                by (auto simp: Let_def)
              with ok tc nrej gp s1 ne s3 keep[of tc qq pp R s1 s3] show ?thesis by simp
            qed
          qed
        qed
      qed
    qed
  qed
qed

lemma build_loop_no_assertion:
  assumes "successively
             (\<lambda>t0 t1. \<forall>bg ba. entry_bias b vs0 (X (idx t0)) = Some (bg, ba) \<longrightarrow>
                         contract_met env t0 t1 bg ba)
             ((if before = [] then [] else [last before]) @
              filter (\<lambda>t. \<not> pose_rejected env (t + offset_in_force cfg False (values_est s)))
                rest)"
    and "\<forall>u. state_index s u = idx u"
    and "\<not> b \<longrightarrow> (\<forall>i v. values_est s (X i) = Some v \<longrightarrow> vs0 (X i) = Some v)"
    and "b \<longrightarrow> before \<noteq> [] \<longrightarrow>
           (\<forall>st. values_est s (X (idx (last before))) = Some (NavState st) \<longrightarrow>
                 nav_bg st = (0, 0, 0) \<and> nav_ba st = (0, 0, 0))"
  shows "build_loop env cfg b before rest s \<noteq> Inl (AssertionFailed a, l)"
  using assms
proof (induction rest arbitrary: before s)
  case Nil
  then show ?case by simp
next
  case (Cons t rest)
  let ?Q = "\<lambda>t0 t1. \<forall>bg ba. entry_bias b vs0 (X (idx t0)) = Some (bg, ba) \<longrightarrow>
                         contract_met env t0 t1 bg ba"
  let ?ok = "\<lambda>s t. \<not> pose_rejected env (t + offset_in_force cfg False (values_est s))"
  let ?s0 = "s\<lparr>ok_polls := Suc (ok_polls s)\<rparr>"
  obtain r where r: "build_loop env cfg b before (t # rest) s = r" by simp
  from r have "r \<noteq> Inl (AssertionFailed a, l)"
  proof (cases rule: build_loop_Cons_outcome)
    case (stop s')
    then show ?thesis by simp
  next
    case (exc e l')
    then show ?thesis by auto
  next
    case (skip tc msg)
    let ?s1 = "skip_timestamp msg t ?s0"
    have o: "offset_in_force cfg False (values_est ?s1) = offset_in_force cfg False (values_est s)"
      by (rule offset_in_force_cong) (simp add: skip_timestamp_fields)
    from corrected_time_offset[OF skip(2)] skip(3)
    have rej: "pose_rejected env (t + offset_in_force cfg False (values_est s))" by simp
    have a1: "successively ?Q ((if before = [] then [] else [last before]) @ filter (?ok ?s1) rest)"
      using Cons.prems(1) rej o by simp
    have a2: "\<forall>u. state_index ?s1 u = idx u"
      using Cons.prems(2) by (simp add: skip_timestamp_fields state_index_simps)
    have a3: "\<not> b \<longrightarrow> (\<forall>i v. values_est ?s1 (X i) = Some v \<longrightarrow> vs0 (X i) = Some v)"
      using Cons.prems(3) by (simp add: skip_timestamp_fields)
    have a4: "b \<longrightarrow> before \<noteq> [] \<longrightarrow>
           (\<forall>st. values_est ?s1 (X (idx (last before))) = Some (NavState st) \<longrightarrow>
                 nav_bg st = (0, 0, 0) \<and> nav_ba st = (0, 0, 0))"
      using Cons.prems(4) by (simp add: skip_timestamp_fields)
    from Cons.IH[OF a1 a2 a3 a4] skip(4) show ?thesis by simp
  next
    case (keep tc qq pp R s1 s3)
    note f = keep_step_fields[OF keep(5) keep(6)]
    have v3: "values_est s3 = (if b then (values_est s)(X (idx t) \<mapsto>
                                     NavState (initial_imu_state env cfg qq pp))
                          else values_est s)"
      using f(1) Cons.prems(2) by (simp add: state_index_simps)
    then have "values_est s3 (T 0) = values_est s (T 0)" by simp
    then have o: "offset_in_force cfg False (values_est s3) = offset_in_force cfg False (values_est s)"
      by (rule offset_in_force_cong)
    from corrected_time_offset[OF keep(2)] keep(3)
    have acc: "\<not> pose_rejected env (t + offset_in_force cfg False (values_est s))" by simp
    from Cons.prems(1) acc have
      "successively ?Q ((if before = [] then [] else [last before]) @ t # filter (?ok s) rest)"
      by simp
    then have "successively ?Q (t # filter (?ok s) rest)"
      by (cases "before = []") (simp_all add: successively_Cons)
    then have a1: "successively ?Q ((if before @ [t] = [] then [] else [last (before @ [t])]) @
                     filter (?ok s3) rest)"
      using o by simp
    have a2: "\<forall>u. state_index s3 u = idx u"
      using Cons.prems(2) f(3) by (simp add: state_index_simps)
    have a3: "\<not> b \<longrightarrow> (\<forall>i v. values_est s3 (X i) = Some v \<longrightarrow> vs0 (X i) = Some v)"
      using Cons.prems(3) v3 by simp
    have a4: "b \<longrightarrow> before @ [t] \<noteq> [] \<longrightarrow>
           (\<forall>st. values_est s3 (X (idx (last (before @ [t])))) = Some (NavState st) \<longrightarrow>
                 nav_bg st = (0, 0, 0) \<and> nav_ba st = (0, 0, 0))"
      using v3 by (simp add: initial_imu_state_def Let_def)
    from Cons.IH[OF a1 a2 a3 a4] keep(7) show ?thesis by simp
  next
    case (fail tc qq pp R s1 e)
    note f1 = insert_imu_state_fields[OF fail(5)]
    let ?s2 = "add_vicon_factor cfg t qq pp R s1"
    have v2: "values_est ?s2 = (if b then (values_est s)(X (idx t) \<mapsto>
                                     NavState (initial_imu_state env cfg qq pp))
                          else values_est s)"
      using f1(2) Cons.prems(2) by (simp add: add_vicon_factor_fields state_index_simps)
    have i2: "state_index ?s2 (last before) = idx (last before)"
      using f1(8) Cons.prems(2) by (simp add: add_vicon_factor_fields state_index_simps)
    from corrected_time_offset[OF fail(2)] fail(3)
    have acc: "\<not> pose_rejected env (t + offset_in_force cfg False (values_est s))" by simp
    from Cons.prems(1) acc fail(6) have q: "?Q (last before) t" by simp
    show ?thesis
    proof
      assume "r = Inl (AssertionFailed a, l)"
      with fail(7,8) have
        "\<exists>a l. add_preintegration env (last before) t ?s2 = Inl (AssertionFailed a, l)" by auto
      then obtain st where st: "values_est ?s2 (X (idx (last before))) = Some (NavState st)"
        and nc: "\<not> contract_met env (last before) t (nav_bg st) (nav_ba st)"
        unfolding add_preintegration_assert i2 by blast
      have "entry_bias b vs0 (X (idx (last before))) = Some (nav_bg st, nav_ba st)"
      proof (cases b)
        case False
        with st v2 Cons.prems(3) have "vs0 (X (idx (last before))) = Some (NavState st)" by simp
        with False show ?thesis by (simp add: entry_bias_def)
      next
        case True
        have "nav_bg st = (0, 0, 0) \<and> nav_ba st = (0, 0, 0)"
        proof (cases "idx (last before) = idx t")
          case same: True
          with st v2 True show ?thesis by (auto simp: initial_imu_state_def Let_def)
        next
          case False
          with st v2 True have "values_est s (X (idx (last before))) = Some (NavState st)" by simp
          with Cons.prems(4) True fail(6) show ?thesis by simp
        qed
        with True show ?thesis by (simp add: entry_bias_def)
      qed
      with q nc show False by blast
    qed
  qed
  with r show ?case by simp
qed

lemma read_bias_is_entry_bias:
  assumes "values_est s2 = (if b then (values_est s)(X (idx t) \<mapsto>
                                     NavState (initial_imu_state env cfg qq pp))
                            else values_est s)"
    and "\<not> b \<longrightarrow> (\<forall>i v. values_est s (X i) = Some v \<longrightarrow> vs0 (X i) = Some v)"
    and "b \<longrightarrow> (\<forall>st. values_est s (X (idx t0)) = Some (NavState st) \<longrightarrow>
                 nav_bg st = (0, 0, 0) \<and> nav_ba st = (0, 0, 0))"
    and "values_est s2 (X (idx t0)) = Some (NavState st)"
  shows "entry_bias b vs0 (X (idx t0)) = Some (nav_bg st, nav_ba st)"
proof (cases b)
  case False
  with assms(1,2,4) have "vs0 (X (idx t0)) = Some (NavState st)" by simp
  with False show ?thesis by (simp add: entry_bias_def)
next
  case True
  have "nav_bg st = (0, 0, 0) \<and> nav_ba st = (0, 0, 0)"
  proof (cases "idx t0 = idx t")
    case same: True
    with assms(1,4) True show ?thesis by (auto simp: initial_imu_state_def Let_def)
  next
    case False
    with assms(1,4) True have "values_est s (X (idx t0)) = Some (NavState st)" by simp
    with assms(3) True show ?thesis by simp
  qed
  with True show ?thesis by (simp add: entry_bias_def)
qed

lemma build_loop_prefix:
  "build_loop env cfg b before rest s = Inr s' \<Longrightarrow> \<exists>ys. timestamp_cameras s' = before @ ys"
proof (induction rest arbitrary: before s)
  case Nil
  then show ?case by auto
next
  case (Cons t rest)
  from Cons.prems show ?case
  proof (cases rule: build_loop_Cons_cases)
    case stop
    then show ?thesis by simp
  next
    case (skip tc msg)
    from Cons.IH[OF skip(4)] show ?thesis .
  next
    case (keep tc qq pp R s1 s3)
    from Cons.IH[OF keep(7)] show ?thesis by auto
  qed
qed

lemma build_loop_imu_source:
  assumes "build_loop env cfg b before rest s = Inr s'"
    and "\<forall>u. state_index s u = idx u"
    and "\<not> b \<longrightarrow> (\<forall>i v. values_est s (X i) = Some v \<longrightarrow> vs0 (X i) = Some v)"
    and "b \<longrightarrow> before \<noteq> [] \<longrightarrow>
           (\<forall>st. values_est s (X (idx (last before))) = Some (NavState st) \<longrightarrow>
                 nav_bg st = (0, 0, 0) \<and> nav_ba st = (0, 0, 0))"
  shows "\<forall>f\<in>set (graph s'). f \<in> set (graph s) \<or> \<not> is_imu f \<or>
           (\<exists>t0 t1 bg ba pre us vs.
              timestamp_cameras s' = us @ t0 # t1 # vs \<and>
              entry_bias b vs0 (X (idx t0)) = Some (bg, ba) \<and>
              propagate env t0 t1 bg ba = (True, pre) \<and>
              DT pre = double_minus env t1 t0 \<and>
              f = imu_factor (idx t0) (idx t1) pre)"
  using assms
proof (induction rest arbitrary: before s)
  case Nil
  then show ?case by auto
next
  case (Cons t rest)
  let ?s0 = "s\<lparr>ok_polls := Suc (ok_polls s)\<rparr>"
  let ?src = "\<lambda>f. \<exists>t0 t1 bg ba pre us vs.
              timestamp_cameras s' = us @ t0 # t1 # vs \<and>
              entry_bias b vs0 (X (idx t0)) = Some (bg, ba) \<and>
              propagate env t0 t1 bg ba = (True, pre) \<and>
              DT pre = double_minus env t1 t0 \<and>
              f = imu_factor (idx t0) (idx t1) pre"
  from Cons.prems(1) show ?case
  proof (cases rule: build_loop_Cons_cases)
    case stop
    then show ?thesis by simp
  next
    case (skip tc msg)
    let ?s1 = "skip_timestamp msg t ?s0"
    have a2: "\<forall>u. state_index ?s1 u = idx u"
      using Cons.prems(2) by (simp add: skip_timestamp_fields state_index_simps)
    have a3: "\<not> b \<longrightarrow> (\<forall>i v. values_est ?s1 (X i) = Some v \<longrightarrow> vs0 (X i) = Some v)"
      using Cons.prems(3) by (simp add: skip_timestamp_fields)
    have a4: "b \<longrightarrow> before \<noteq> [] \<longrightarrow>
           (\<forall>st. values_est ?s1 (X (idx (last before))) = Some (NavState st) \<longrightarrow>
                 nav_bg st = (0, 0, 0) \<and> nav_ba st = (0, 0, 0))"
      using Cons.prems(4) by (simp add: skip_timestamp_fields)
    from Cons.IH[OF skip(4) a2 a3 a4] show ?thesis by (simp add: skip_timestamp_fields)
  next
    case (keep tc qq pp R s1 s3)
    note f = keep_step_fields[OF keep(5) keep(6)]
    note f1 = insert_imu_state_fields[OF keep(5)]
    let ?s2 = "add_vicon_factor cfg t qq pp R s1"
    have v3: "values_est s3 = (if b then (values_est s)(X (idx t) \<mapsto>
                                     NavState (initial_imu_state env cfg qq pp))
                          else values_est s)"
      using f(1) Cons.prems(2) by (simp add: state_index_simps)
    have v2: "values_est ?s2 = (if b then (values_est s)(X (idx t) \<mapsto>
                                     NavState (initial_imu_state env cfg qq pp))
                          else values_est s)"
      using f1(2) Cons.prems(2) by (simp add: add_vicon_factor_fields state_index_simps)
    have i2: "state_index ?s2 u = idx u" for u
      using f1(8) Cons.prems(2) by (simp add: add_vicon_factor_fields state_index_simps)
    have a2: "\<forall>u. state_index s3 u = idx u"
      using Cons.prems(2) f(3) by (simp add: state_index_simps)
    have a3: "\<not> b \<longrightarrow> (\<forall>i v. values_est s3 (X i) = Some v \<longrightarrow> vs0 (X i) = Some v)"
      using Cons.prems(3) v3 by simp
    have a4: "b \<longrightarrow> before @ [t] \<noteq> [] \<longrightarrow>
           (\<forall>st. values_est s3 (X (idx (last (before @ [t])))) = Some (NavState st) \<longrightarrow>
                 nav_bg st = (0, 0, 0) \<and> nav_ba st = (0, 0, 0))"
      using v3 by (simp add: initial_imu_state_def Let_def)
    note IH = Cons.IH[OF keep(7) a2 a3 a4]
    from build_loop_prefix[OF keep(7)] obtain ys where
      ys: "timestamp_cameras s' = (before @ [t]) @ ys" by blast
    have g2: "graph ?s2 = graph s @ [if \<not> estimate_toff_vicon_to_imu cfg
                then ViconPoseFactor (X (state_index s1 t)) (C 0) (C 1) R qq pp
                else ViconPoseTimeoffsetFactor (X (state_index s1 t)) (C 0) (C 1) (T 0) t]"
      using f1(5) by (simp add: add_vicon_factor_fields)
    have new: "\<forall>f\<in>set (graph s3). f \<in> set (graph s) \<or> \<not> is_imu f \<or> ?src f"
    proof (cases "before = []")
      case True
      with keep(6) g2 show ?thesis by auto
    next
      case False
      with keep(6) have p: "add_preintegration env (last before) t ?s2 = Inr s3" by simp
      from add_preintegration_graph[OF p] obtain st pre where
        st: "at_JPLNavState (values_est ?s2) (X (state_index ?s2 (last before))) = Inr st"
        and pr: "propagate env (last before) t (nav_bg st) (nav_ba st) = (True, pre)"
        and dt: "DT pre = double_minus env t (last before)"
        and g3: "graph s3 = graph ?s2 @
                   [imu_factor (state_index ?s2 (last before)) (state_index ?s2 t) pre]"
        by blast
      from st have st': "values_est ?s2 (X (idx (last before))) = Some (NavState st)"
        by (auto simp: at_JPLNavState_def i2 split: option.splits val.splits)
      from Cons.prems(4) False have z: "b \<longrightarrow>
           (\<forall>st. values_est s (X (idx (last before))) = Some (NavState st) \<longrightarrow>
                 nav_bg st = (0, 0, 0) \<and> nav_ba st = (0, 0, 0))" by simp
      have eb: "entry_bias b vs0 (X (idx (last before))) = Some (nav_bg st, nav_ba st)"
        by (rule read_bias_is_entry_bias[where idx = idx and t = t and ?t0.0 = "last before"
              and ?s2.0 = "?s2" and s = s, OF v2 Cons.prems(3) z st'])
      from False have "before = butlast before @ [last before]" by simp
      then have "timestamp_cameras s' = butlast before @ last before # t # ys"
        using ys by (metis append.assoc append_Cons append_Nil)
      with eb pr dt have "?src (imu_factor (idx (last before)) (idx t) pre)" by blast
      with g3 g2 i2 show ?thesis by auto
    qed
    show ?thesis
    proof
      fix f assume "f \<in> set (graph s')"
      with IH have "f \<in> set (graph s3) \<or> \<not> is_imu f \<or> ?src f" by blast
      with new show "f \<in> set (graph s) \<or> \<not> is_imu f \<or> ?src f" by blast
    qed
  qed
qed

lemma build_problem_Inl_cases:
  assumes "build_problem env cfg b s = Inl (e, l)"
  obtains (exc) "is_exception e"
  | (loop) s1 s2 s3 where
      "init_calibration cfg b
         ((info ''[BUILD]: building the graph (might take a while)'' s)\<lparr>graph := []\<rparr>) = Inr s1"
      "timeoffset_logic cfg b s1 = Inr s2" "gravity_logic cfg s2 = Inr s3"
      "build_loop env cfg b [] (timestamp_cameras s3) s3 = Inl (e, l)"
proof -
  let ?s0 = "(info ''[BUILD]: building the graph (might take a while)'' s)\<lparr>graph := []\<rparr>"
  show ?thesis
  proof (cases "init_calibration cfg b ?s0")
    case (Inl x)
    with assms have "init_calibration cfg b ?s0 = Inl (e, l)"
      by (simp add: build_problem_def Let_def)
    then have "is_exception e" by (rule init_calibration_Inl)
    then show ?thesis by (rule exc)
  next
    case s1: (Inr s1)
    show ?thesis
    proof (cases "timeoffset_logic cfg b s1")
      case (Inl x)
      with assms s1 have "timeoffset_logic cfg b s1 = Inl (e, l)"
        by (simp add: build_problem_def Let_def)
      then have "is_exception e" by (rule timeoffset_logic_Inl)
      then show ?thesis by (rule exc)
    next
      case s2: (Inr s2)
      show ?thesis
      proof (cases "gravity_logic cfg s2")
        case (Inl x)
        with assms s1 s2 have "gravity_logic cfg s2 = Inl (e, l)"
          by (simp add: build_problem_def Let_def)
        then have "is_exception e" by (rule gravity_logic_Inl)
        then show ?thesis by (rule exc)
      next
        case s3: (Inr s3)
        with assms s1 s2 have "build_loop env cfg b [] (timestamp_cameras s3) s3 = Inl (e, l)"
          by (simp add: build_problem_def Let_def)
        with s1 s2 s3 show ?thesis by (rule loop)
      qed
    qed
  qed
qed

lemma build_problem_no_assertion:
  assumes "successively
             (\<lambda>t0 t1. \<forall>bg ba. entry_bias b (values_est s) (X (state_index s t0)) = Some (bg, ba) \<longrightarrow>
                         contract_met env t0 t1 bg ba)
             (filter (\<lambda>t. \<not> pose_rejected env (t + offset_in_force cfg b (values_est s)))
                (timestamp_cameras s))"
  shows "build_problem env cfg b s \<noteq> Inl (AssertionFailed a, l)"
proof
  assume "build_problem env cfg b s = Inl (AssertionFailed a, l)"
  then show False
  proof (cases rule: build_problem_Inl_cases)
    case exc
    then show ?thesis by simp
  next
    case (loop s1 s2 s3)
    note p = build_problem_prelude[OF loop(1,2,3)]
    have a1: "successively
             (\<lambda>t0 t1. \<forall>bg ba. entry_bias b (values_est s) (X (state_index s t0)) = Some (bg, ba) \<longrightarrow>
                         contract_met env t0 t1 bg ba)
             ((if ([]::real list) = [] then [] else [last []]) @
              filter (\<lambda>t. \<not> pose_rejected env (t + offset_in_force cfg False (values_est s3)))
                (timestamp_cameras s3))"
      using assms p(1,3) by simp
    have a2: "\<forall>u. state_index s3 u = state_index s u" using p(2) by simp
    have a3: "\<not> b \<longrightarrow> (\<forall>i v. values_est s3 (X i) = Some v \<longrightarrow> values_est s (X i) = Some v)"
      using p(4) by simp
    from build_loop_no_assertion[OF a1 a2 a3, of a l] loop(4) show ?thesis by simp
  qed
qed

lemma build_problem_imu_source:
  assumes "build_problem env cfg b s = Inr s'" and "f \<in> set (graph s')" and "is_imu f"
  shows "\<exists>t0 t1 bg ba pre us vs.
              timestamp_cameras s' = us @ t0 # t1 # vs \<and>
              entry_bias b (values_est s) (X (state_index s t0)) = Some (bg, ba) \<and>
              propagate env t0 t1 bg ba = (True, pre) \<and>
              DT pre = double_minus env t1 t0 \<and>
              f = imu_factor (state_index s t0) (state_index s t1) pre"
proof -
  from assms(1) obtain s1 s2 s3 where
    c: "init_calibration cfg b
          ((info ''[BUILD]: building the graph (might take a while)'' s)\<lparr>graph := []\<rparr>) = Inr s1"
      "timeoffset_logic cfg b s1 = Inr s2" "gravity_logic cfg s2 = Inr s3"
      "build_loop env cfg b [] (timestamp_cameras s3) s3 = Inr s'"
    by (rule build_problem_Inr_cases)
  note p = build_problem_prelude[OF c(1,2,3)]
  have a2: "\<forall>u. state_index s3 u = state_index s u" using p(2) by simp
  have a3: "\<not> b \<longrightarrow> (\<forall>i v. values_est s3 (X i) = Some v \<longrightarrow> values_est s (X i) = Some v)"
    using p(4) by simp
  from p(5) have "\<forall>f\<in>set (graph s3). \<not> is_imu f"
    by (auto elim!: is_imu.elims)
  with build_loop_imu_source[OF c(4) a2 a3] assms(2,3) show ?thesis by fastforce
qed

text \<open>
  Claim C8. Take the camera times that survive a build pass, in the order of the vector,
  and suppose that for every two neighbours \<open>t0\<close>, \<open>t1\<close> among them the Propagator, asked
  for the interval from \<open>t0\<close> to \<open>t1\<close> with the biases of the state of \<open>t0\<close> (\<open>entry_bias\<close>),
  reports success and returns the double \<open>t1 - t0\<close> as its duration. Then the pass does
  not end in a failed assertion. Nothing is asked of the Propagator for other pairs,
  other biases or backward intervals. For a single request, the step of lines 359-386
  ends in a failed assertion exactly when the state of \<open>time0\<close> is stored and the contract
  is broken for its biases. And every inertial factor of a pass that returns was made
  from a request for two neighbouring surviving times with those biases, for which the
  contract held.
\<close>

theorem propagator_contract_no_assertion:
  "(successively
      (\<lambda>t0 t1. \<forall>bg ba.
          entry_bias init_states (values_est s) (X (state_index s t0)) = Some (bg, ba) \<longrightarrow>
          contract_met env t0 t1 bg ba)
      (filter (\<lambda>t. \<not> pose_rejected env (t + offset_in_force cfg init_states (values_est s)))
         (timestamp_cameras s)) \<longrightarrow>
    (\<forall>a l. build_problem env cfg init_states s \<noteq> Inl (AssertionFailed a, l))) \<and>
   ((\<exists>a l. add_preintegration env time0 time1 s = Inl (AssertionFailed a, l)) \<longleftrightarrow>
    (\<exists>st. values_est s (X (state_index s time0)) = Some (NavState st) \<and>
          \<not> contract_met env time0 time1 (nav_bg st) (nav_ba st))) \<and>
   (\<forall>s' f. build_problem env cfg init_states s = Inr s' \<and> f \<in> set (graph s') \<and> is_imu f \<longrightarrow>
      (\<exists>t0 t1 bg ba pre us vs.
          timestamp_cameras s' = us @ t0 # t1 # vs \<and>
          entry_bias init_states (values_est s) (X (state_index s t0)) = Some (bg, ba) \<and>
          propagate env t0 t1 bg ba = (True, pre) \<and>
          DT pre = double_minus env t1 t0 \<and>
          f = imu_factor (state_index s t0) (state_index s t1) pre))"
proof (intro conjI impI allI)
  fix a l
  assume "successively
      (\<lambda>t0 t1. \<forall>bg ba.
          entry_bias init_states (values_est s) (X (state_index s t0)) = Some (bg, ba) \<longrightarrow>
          contract_met env t0 t1 bg ba)
      (filter (\<lambda>t. \<not> pose_rejected env (t + offset_in_force cfg init_states (values_est s)))
         (timestamp_cameras s))"
  then show "build_problem env cfg init_states s \<noteq> Inl (AssertionFailed a, l)"
    by (rule build_problem_no_assertion)
next
  show "(\<exists>a l. add_preintegration env time0 time1 s = Inl (AssertionFailed a, l)) \<longleftrightarrow>
    (\<exists>st. values_est s (X (state_index s time0)) = Some (NavState st) \<and>
          \<not> contract_met env time0 time1 (nav_bg st) (nav_ba st))"
    by (rule add_preintegration_assert)
next
  fix s' f
  assume "build_problem env cfg init_states s = Inr s' \<and> f \<in> set (graph s') \<and> is_imu f"
  then show "\<exists>t0 t1 bg ba pre us vs.
          timestamp_cameras s' = us @ t0 # t1 # vs \<and>
          entry_bias init_states (values_est s) (X (state_index s t0)) = Some (bg, ba) \<and>
          propagate env t0 t1 bg ba = (True, pre) \<and>
          DT pre = double_minus env t1 t0 \<and>
          f = imu_factor (state_index s t0) (state_index s t1) pre"
    using build_problem_imu_source by blast
qed

theorem propagator_contract_no_assertion_witness:
  "successively
      (\<lambda>t0 t1. \<forall>bg ba.
          entry_bias True (values_est (indexed_solver [1, 2, 3]))
            (X (state_index (indexed_solver [1, 2, 3]) t0)) = Some (bg, ba) \<longrightarrow>
          contract_met forward_env t0 t1 bg ba)
      (filter (\<lambda>t. \<not> pose_rejected forward_env
                       (t + offset_in_force demo_cfg True (values_est (indexed_solver [1, 2, 3]))))
         (timestamp_cameras (indexed_solver [1, 2, 3]))) \<and>
   \<not> contract_met forward_env 2 1 (0, 0, 0) (0, 0, 0) \<and>
   \<not> contract_met forward_env 1 2 (1, 0, 0) (0, 0, 0) \<and>
   (\<forall>a l. build_problem forward_env demo_cfg True (indexed_solver [1, 2, 3])
            \<noteq> Inl (AssertionFailed a, l)) \<and>
   \<not> isl (build_problem forward_env demo_cfg True (indexed_solver [1, 2, 3])) \<and>
   imu_factor 0 1 (demo_preint 1 0)
     \<in> set (graph (projr (build_problem forward_env demo_cfg True (indexed_solver [1, 2, 3])))) \<and>
   (\<exists>t0 t1 bg ba pre us vs.
      timestamp_cameras (projr (build_problem forward_env demo_cfg True (indexed_solver [1, 2, 3])))
        = us @ t0 # t1 # vs \<and>
      entry_bias True (values_est (indexed_solver [1, 2, 3]))
        (X (state_index (indexed_solver [1, 2, 3]) t0)) = Some (bg, ba) \<and>
      propagate forward_env t0 t1 bg ba = (True, pre) \<and>
      DT pre = double_minus forward_env t1 t0 \<and>
      imu_factor 0 1 (demo_preint 1 0) =
        imu_factor (state_index (indexed_solver [1, 2, 3]) t0)
          (state_index (indexed_solver [1, 2, 3]) t1) pre)"
proof -
  let ?s = "indexed_solver [1, 2, 3]"
  let ?r = "build_problem forward_env demo_cfg True ?s"
  have h: "successively
      (\<lambda>t0 t1. \<forall>bg ba.
          entry_bias True (values_est ?s) (X (state_index ?s t0)) = Some (bg, ba) \<longrightarrow>
          contract_met forward_env t0 t1 bg ba)
      (filter (\<lambda>t. \<not> pose_rejected forward_env
                       (t + offset_in_force demo_cfg True (values_est ?s)))
         (timestamp_cameras ?s))"
    by (simp add: forward_env_def demo_defs indexed_solver_def pose_rejected_def
        offset_in_force_def entry_bias_def contract_met_def)
  have c1: "\<not> contract_met forward_env 2 1 (0, 0, 0) (0, 0, 0)"
    by (simp add: forward_env_def demo_defs contract_met_def)
  have c2: "\<not> contract_met forward_env 1 2 (1, 0, 0) (0, 0, 0)"
    by (simp add: forward_env_def demo_defs contract_met_def)
  have ok: "\<not> isl ?r"
    by (simp add: forward_env_def demo_defs indexed_solver_def model_defs Let_def)
  then have e: "?r = Inr (projr ?r)" by (cases ?r) simp_all
  have g: "imu_factor 0 1 (demo_preint 1 0) \<in> set (graph (projr ?r))"
    by (simp add: forward_env_def demo_defs indexed_solver_def model_defs Let_def imu_factor_def)
  have i: "is_imu (imu_factor 0 1 (demo_preint 1 0) :: nat factor)"
    by (simp add: imu_factor_def)
  note t = propagator_contract_no_assertion[of True ?s forward_env demo_cfg]
  from t[THEN conjunct1] h
  have na: "\<forall>a l. ?r \<noteq> Inl (AssertionFailed a, l)" by blast
  from t[THEN conjunct2, THEN conjunct2] e g i
  have src: "\<exists>t0 t1 bg ba pre us vs.
      timestamp_cameras (projr ?r) = us @ t0 # t1 # vs \<and>
      entry_bias True (values_est ?s) (X (state_index ?s t0)) = Some (bg, ba) \<and>
      propagate forward_env t0 t1 bg ba = (True, pre) \<and>
      DT pre = double_minus forward_env t1 t0 \<and>
      imu_factor 0 1 (demo_preint 1 0) = imu_factor (state_index ?s t0) (state_index ?s t1) pre"
    by blast
  from h c1 c2 na ok g src show ?thesis by blast
qed

section \<open>The exported state table (claim C9)\<close>

lemma write_states_rows:
  "write_states env ts rows s = (rows', None, s') \<Longrightarrow>
   \<exists>sts. length sts = length ts \<and> rows' = rows @ map2 (state_row env) ts sts \<and>
         (\<forall>i<length ts. values_result s (X (state_index s (ts ! i))) = Some (NavState (sts ! i)))"
proof (induction ts arbitrary: rows s)
  case Nil
  then show ?case by simp
next
  case (Cons t ts)
  obtain i s1 where m: "map_states_at t s = (i, s1)" by (cases "map_states_at t s")
  then have i: "i = state_index s t" and s1: "s1 = snd (map_states_at t s)"
    using map_states_at_fst[of t s] by simp_all
  have v1: "values_result s1 = values_result s" and si: "\<And>u. state_index s1 u = state_index s u"
    by (simp_all add: s1 map_states_at_snd)
  from Cons.prems m obtain st where st: "at_JPLNavState (values_result s1) (X i) = Inr st"
    by (cases "at_JPLNavState (values_result s1) (X i)") auto
  then have vst: "values_result s (X (state_index s t)) = Some (NavState st)"
    using v1 i by (auto simp: at_JPLNavState_def split: option.splits val.splits)
  from Cons.prems m st have "write_states env ts (rows @ [state_row env t st]) s1 = (rows', None, s')"
    by simp
  from Cons.IH[OF this] obtain sts where sts: "length sts = length ts"
    "rows' = (rows @ [state_row env t st]) @ map2 (state_row env) ts sts"
    "\<forall>j<length ts. values_result s1 (X (state_index s1 (ts ! j))) = Some (NavState (sts ! j))"
    by blast
  have "\<forall>j<length (t # ts). values_result s (X (state_index s ((t # ts) ! j))) =
          Some (NavState ((st # sts) ! j))"
  proof (intro allI impI)
    fix j assume "j < length (t # ts)"
    then show "values_result s (X (state_index s ((t # ts) ! j))) = Some (NavState ((st # sts) ! j))"
      using vst sts(3) v1 si by (cases j) auto
  qed
  with sts(1,2) show ?case
    by (intro exI[of _ "st # sts"]) simp
qed

lemma state_row_time:
  "fst (state_row env t st) = (20, of_int \<lfloor>double_times env 1000000000 t\<rfloor>)"
  by (simp add: state_row_def split: prod.splits)

lemma state_row_quat:
  "sum_list (map (\<lambda>c. snd c * snd c) (take 4 (drop 3 (snd (state_row env t st))))) =
     (case nav_q st of (q0, q1, q2, q3) \<Rightarrow> q0 * q0 + q1 * q1 + q2 * q2 + q3 * q3)"
  by (simp add: state_row_def split: prod.splits)

text \<open>
  Claim C9, as amended. When the loop of \<open>write_to_file\<close> meets no exception, the table
  has one row per timestamp of the vector, in the order of the vector: row \<open>i\<close> is the
  row of timestamp \<open>i\<close> and of the state stored for its key in \<open>values_result\<close>. The
  time field is written at precision 20 and holds the floor of the double \<open>1e9*t\<close>, a
  whole number; the rows are in ascending time order when the vector is (the double
  product being monotone), and not otherwise. The sixteen fields that follow are written
  at precision 6: the position, the quaternion with its scalar part (component 3) first,
  the velocity, the gyro bias and the accel bias of the stored state. The four
  orientation fields have the norm of the stored quaternion, so they are a unit
  quaternion when the stored one is.
\<close>

theorem state_table_rows:
  assumes "write_to_file_states env s = (rows, None, s')"
  shows "length rows = length (timestamp_cameras s) \<and>
         (\<forall>i<length rows. \<exists>st.
            values_result s (X (state_index s (timestamp_cameras s ! i))) = Some (NavState st) \<and>
            rows ! i = state_row env (timestamp_cameras s ! i) st) \<and>
         map fst rows =
           map (\<lambda>t. (20, of_int \<lfloor>double_times env 1000000000 t\<rfloor>)) (timestamp_cameras s) \<and>
         ((\<forall>a b. a \<le> b \<longrightarrow> double_times env 1000000000 a \<le> double_times env 1000000000 b) \<and>
          sorted (timestamp_cameras s) \<longrightarrow> sorted (map (\<lambda>row. snd (fst row)) rows)) \<and>
         (\<forall>t q0 q1 q2 q3 bg0 bg1 bg2 v0 v1 v2 ba0 ba1 ba2 p0 p1 p2.
            state_row env t
              \<lparr>nav_q = (q0, q1, q2, q3), nav_bg = (bg0, bg1, bg2), nav_v = (v0, v1, v2),
               nav_ba = (ba0, ba1, ba2), nav_p = (p0, p1, p2)\<rparr> =
              ((20, of_int \<lfloor>double_times env 1000000000 t\<rfloor>),
               [(6, p0), (6, p1), (6, p2), (6, q3), (6, q0), (6, q1), (6, q2),
                (6, v0), (6, v1), (6, v2), (6, bg0), (6, bg1), (6, bg2),
                (6, ba0), (6, ba1), (6, ba2)])) \<and>
         (\<forall>t st. sum_list (map (\<lambda>c. snd c * snd c) (take 4 (drop 3 (snd (state_row env t st))))) =
            (case nav_q st of (q0, q1, q2, q3) \<Rightarrow> q0 * q0 + q1 * q1 + q2 * q2 + q3 * q3))"
proof -
  let ?ts = "timestamp_cameras s"
  let ?s0 = "info ''saving states and info to file'' s"
  let ?tm = "\<lambda>t. (20::nat, (of_int \<lfloor>double_times env 1000000000 t\<rfloor>)::real)"
  from assms have w: "write_states env ?ts [] ?s0 = (rows, None, s')"
    by (simp add: write_to_file_states_def info_def)
  from write_states_rows[OF w] obtain sts where sts: "length sts = length ?ts"
    "rows = map2 (state_row env) ?ts sts"
    "\<forall>i<length ?ts. values_result ?s0 (X (state_index ?s0 (?ts ! i))) = Some (NavState (sts ! i))"
    by auto
  have len: "length rows = length ?ts" using sts(1,2) by simp
  have a: "\<forall>i<length rows. \<exists>st.
            values_result s (X (state_index s (?ts ! i))) = Some (NavState st) \<and>
            rows ! i = state_row env (?ts ! i) st"
  proof (intro allI impI)
    fix i assume i: "i < length rows"
    have si0: "state_index ?s0 (?ts ! i) = state_index s (?ts ! i)"
      by (simp add: state_index_simps)
    have vr0: "values_result ?s0 = values_result s" by (simp add: info_def)
    from i len sts(3) have "values_result ?s0 (X (state_index ?s0 (?ts ! i))) = Some (NavState (sts ! i))"
      by simp
    then have "values_result s (X (state_index s (?ts ! i))) = Some (NavState (sts ! i))"
      by (simp only: si0 vr0)
    moreover have "rows ! i = state_row env (?ts ! i) (sts ! i)"
      using i len sts(1,2) by simp
    ultimately show "\<exists>st. values_result s (X (state_index s (?ts ! i))) = Some (NavState st) \<and>
            rows ! i = state_row env (?ts ! i) st"
      by blast
  qed
  have b: "map fst rows = map ?tm ?ts"
  proof (rule nth_equalityI)
    show "length (map fst rows) = length (map ?tm ?ts)" using len by simp
    fix i assume "i < length (map fst rows)"
    then have i: "i < length rows" by simp
    with a obtain st where "rows ! i = state_row env (?ts ! i) st" by blast
    with i len show "map fst rows ! i = map ?tm ?ts ! i"
      by (simp add: state_row_time)
  qed
  have c: "(\<forall>a b. a \<le> b \<longrightarrow> double_times env 1000000000 a \<le> double_times env 1000000000 b) \<and>
          sorted ?ts \<longrightarrow> sorted (map (\<lambda>row. snd (fst row)) rows)"
  proof
    assume h: "(\<forall>a b. a \<le> b \<longrightarrow> double_times env 1000000000 a \<le> double_times env 1000000000 b) \<and>
          sorted ?ts"
    then have "sorted (map (\<lambda>t. snd (?tm t)) ?ts)"
      by (auto simp: sorted_map sorted_wrt_iff_nth_less intro!: floor_mono)
    moreover have "map (\<lambda>row. snd (fst row)) rows = map snd (map fst rows)" by simp
    ultimately show "sorted (map (\<lambda>row. snd (fst row)) rows)"
      unfolding b by (simp add: comp_def)
  qed
  have d: "\<forall>t q0 q1 q2 q3 bg0 bg1 bg2 v0 v1 v2 ba0 ba1 ba2 p0 p1 p2.
            state_row env t
              \<lparr>nav_q = (q0, q1, q2, q3), nav_bg = (bg0, bg1, bg2), nav_v = (v0, v1, v2),
               nav_ba = (ba0, ba1, ba2), nav_p = (p0, p1, p2)\<rparr> =
              ((20, of_int \<lfloor>double_times env 1000000000 t\<rfloor>),
               [(6, p0), (6, p1), (6, p2), (6, q3), (6, q0), (6, q1), (6, q2),
                (6, v0), (6, v1), (6, v2), (6, bg0), (6, bg1), (6, bg2),
                (6, ba0), (6, ba1), (6, ba2)])"
    by (simp add: state_row_def)
  have e: "\<forall>t st. sum_list (map (\<lambda>c. snd c * snd c) (take 4 (drop 3 (snd (state_row env t st))))) =
            (case nav_q st of (q0, q1, q2, q3) \<Rightarrow> q0 * q0 + q1 * q1 + q2 * q2 + q3 * q3)"
    by (simp add: state_row_quat)
  from len a b c d e show ?thesis by blast
qed

theorem state_table_rows_witness:
  "\<not> isl (build_and_solve demo_env demo_cfg (fresh_solver [1, 2])) \<and>
   fst (snd (write_to_file_states demo_env
     (projr (build_and_solve demo_env demo_cfg (fresh_solver [1, 2]))))) = None \<and>
   mono (double_times demo_env 1000000000) \<and>
   sorted (timestamp_cameras (projr (build_and_solve demo_env demo_cfg (fresh_solver [1, 2])))) \<and>
   length (fst (write_to_file_states demo_env
     (projr (build_and_solve demo_env demo_cfg (fresh_solver [1, 2]))))) = 2 \<and>
   sorted (map (\<lambda>row. snd (fst row)) (fst (write_to_file_states demo_env
     (projr (build_and_solve demo_env demo_cfg (fresh_solver [1, 2])))))) \<and>
   take 4 (drop 3 (snd (hd (fst (write_to_file_states demo_env
     (projr (build_and_solve demo_env demo_cfg (fresh_solver [1, 2])))))))) =
     [(6, 1), (6, 0), (6, 0), (6, 0)]"
proof -
  let ?sR = "projr (build_and_solve demo_env demo_cfg (fresh_solver [1, 2]))"
  let ?w = "write_to_file_states demo_env ?sR"
  have ok: "\<not> isl (build_and_solve demo_env demo_cfg (fresh_solver [1, 2]))"
    and ts: "timestamp_cameras ?sR = [1, 2]"
    and n: "fst (snd ?w) = None"
    by (simp_all add: demo_defs model_defs relin_loop.simps Let_def write_to_file_states_def)
  have mono: "\<forall>a b. a \<le> b \<longrightarrow>
      double_times demo_env 1000000000 a \<le> double_times demo_env 1000000000 b"
    by (simp add: demo_env_def)
  have q: "take 4 (drop 3 (snd (hd (fst ?w)))) = [(6, 1), (6, 0), (6, 0), (6, 0)]"
    by (simp add: demo_defs model_defs relin_loop.simps Let_def write_to_file_states_def
        state_row_def)
  have e: "?w = (fst ?w, None, snd (snd ?w))"
    using n by (metis prod.collapse)
  have mono': "mono (double_times demo_env 1000000000)"
    by (simp add: demo_env_def mono_def)
  from state_table_rows[OF e] ts ok n mono mono' q show ?thesis by simp
qed

text \<open>
  The rows follow the vector, which the source never sorts: for the camera times 2, 1
  (in this order) the run succeeds, no state is missing, and the table lists the time
  2000000000 before 1000000000.
\<close>

theorem state_table_follows_vector_order:
  "\<not> isl (build_and_solve demo_env demo_cfg (fresh_solver [2, 1])) \<and>
   fst (snd (write_to_file_states demo_env
     (projr (build_and_solve demo_env demo_cfg (fresh_solver [2, 1]))))) = None \<and>
   map (\<lambda>row. snd (fst row)) (fst (write_to_file_states demo_env
     (projr (build_and_solve demo_env demo_cfg (fresh_solver [2, 1]))))) =
     [2000000000, 1000000000]"
  by (simp add: demo_defs model_defs relin_loop.simps Let_def write_to_file_states_def state_row_def)

section \<open>The relinearization loop (claim C1)\<close>

lemma build_loop_seeds:
  assumes "build_loop env cfg True before rest s = Inr s'"
    and "\<forall>n. ros_ok env n"
    and "inj_on idx (set before \<union> set rest)"
    and "\<forall>u. state_index s u = idx u"
    and "offset_in_force cfg False (values_est s) = off"
    and "\<forall>u\<in>set before. \<not> pose_rejected env (u + off) \<and>
           (\<exists>qq pp R. get_pose env (u + off) = Some (qq, pp, R) \<and>
              values_est s (X (idx u)) = Some (NavState (initial_imu_state env cfg qq pp)))"
  shows "\<forall>u\<in>set (timestamp_cameras s').
           \<exists>qq pp R. get_pose env (u + off) = Some (qq, pp, R) \<and>
              values_est s' (X (idx u)) = Some (NavState (initial_imu_state env cfg qq pp))"
  using assms
proof (induction rest arbitrary: before s)
  case Nil
  then show ?case by auto
next
  case (Cons t rest)
  let ?s0 = "s\<lparr>ok_polls := Suc (ok_polls s)\<rparr>"
  from Cons.prems(1) show ?case
  proof (cases rule: build_loop_Cons_cases)
    case stop
    with Cons.prems(2) show ?thesis by simp
  next
    case (skip tc msg)
    let ?s1 = "skip_timestamp msg t ?s0"
    from corrected_time_offset[OF skip(2)] skip(3) Cons.prems(5)
    have rej: "pose_rejected env (t + off)" by simp
    with Cons.prems(6) have nb: "t \<notin> set before" by blast
    have a3: "inj_on idx (set before \<union> set rest)"
      using Cons.prems(3) by (rule inj_on_subset) auto
    have a4: "\<forall>u. state_index ?s1 u = idx u"
      using Cons.prems(4) by (simp add: skip_timestamp_fields state_index_simps)
    have a5: "offset_in_force cfg False (values_est ?s1) = off"
      using Cons.prems(5) offset_in_force_cong[of "values_est ?s1" "values_est s" cfg False]
      by (simp add: skip_timestamp_fields)
    have a6: "\<forall>u\<in>set before. \<not> pose_rejected env (u + off) \<and>
           (\<exists>qq pp R. get_pose env (u + off) = Some (qq, pp, R) \<and>
              values_est ?s1 (X (idx u)) = Some (NavState (initial_imu_state env cfg qq pp)))"
    proof
      fix u assume u: "u \<in> set before"
      with nb have "u \<noteq> t" by blast
      with u Cons.prems(3) have "idx u \<noteq> idx t" by (auto simp: inj_on_def)
      with Cons.prems(6) u Cons.prems(4) show "\<not> pose_rejected env (u + off) \<and>
           (\<exists>qq pp R. get_pose env (u + off) = Some (qq, pp, R) \<and>
              values_est ?s1 (X (idx u)) = Some (NavState (initial_imu_state env cfg qq pp)))"
        by (simp add: skip_timestamp_fields state_index_simps)
    qed
    from Cons.IH[OF skip(4) Cons.prems(2) a3 a4 a5 a6] show ?thesis .
  next
    case (keep tc qq pp R s1 s3)
    note f = keep_step_fields[OF keep(5) keep(6)]
    have tc: "tc = t + off" using corrected_time_offset[OF keep(2)] Cons.prems(5) by simp
    have v3: "values_est s3 = (values_est s)(X (idx t) \<mapsto>
                                     NavState (initial_imu_state env cfg qq pp))"
      using f(1) Cons.prems(4) by (simp add: state_index_simps)
    have free: "values_est s (X (idx t)) = None"
      using f(2) Cons.prems(4) by (simp add: state_index_simps)
    have a3: "inj_on idx (set (before @ [t]) \<union> set rest)"
      using Cons.prems(3) by (rule inj_on_subset) auto
    have a4: "\<forall>u. state_index s3 u = idx u"
      using Cons.prems(4) f(3) by (simp add: state_index_simps)
    have "values_est s3 (T 0) = values_est s (T 0)" using v3 by simp
    then have a5: "offset_in_force cfg False (values_est s3) = off"
      using Cons.prems(5) offset_in_force_cong[of "values_est s3" "values_est s" cfg False]
      by simp
    have a6: "\<forall>u\<in>set (before @ [t]). \<not> pose_rejected env (u + off) \<and>
           (\<exists>qq pp R. get_pose env (u + off) = Some (qq, pp, R) \<and>
              values_est s3 (X (idx u)) = Some (NavState (initial_imu_state env cfg qq pp)))"
    proof
      fix u assume u: "u \<in> set (before @ [t])"
      show "\<not> pose_rejected env (u + off) \<and>
           (\<exists>qq pp R. get_pose env (u + off) = Some (qq, pp, R) \<and>
              values_est s3 (X (idx u)) = Some (NavState (initial_imu_state env cfg qq pp)))"
      proof (cases "u = t")
        case True
        with keep(3,4) tc v3 show ?thesis by simp
      next
        case False
        with u have ub: "u \<in> set before" by simp
        with Cons.prems(6) free have "idx u \<noteq> idx t" by auto
        with Cons.prems(6) ub v3 show ?thesis by simp
      qed
    qed
    from Cons.IH[OF keep(7) Cons.prems(2) a3 a4 a5 a6] show ?thesis .
  qed
qed

lemma build_problem_seeds_states:
  assumes "build_problem env cfg True s = Inr s'" and "\<forall>n. ros_ok env n"
    and "inj_on (state_index s) (set (timestamp_cameras s))"
  shows "\<forall>t\<in>set (timestamp_cameras s').
           \<exists>qq pp R. get_pose env (t + init_toff_imu_to_vicon cfg) = Some (qq, pp, R) \<and>
              values_est s' (X (state_index s t)) =
                Some (NavState (initial_imu_state env cfg qq pp))"
proof -
  from assms(1) obtain s1 s2 s3 where
    c: "init_calibration cfg True
          ((info ''[BUILD]: building the graph (might take a while)'' s)\<lparr>graph := []\<rparr>) = Inr s1"
      "timeoffset_logic cfg True s1 = Inr s2" "gravity_logic cfg s2 = Inr s3"
      "build_loop env cfg True [] (timestamp_cameras s3) s3 = Inr s'"
    by (rule build_problem_Inr_cases)
  note p = build_problem_prelude[OF c(1,2,3)]
  have a3: "inj_on (state_index s) (set [] \<union> set (timestamp_cameras s3))"
    using assms(3) p(1) by simp
  have a4: "\<forall>u. state_index s3 u = state_index s u" using p(2) by simp
  have a5: "offset_in_force cfg False (values_est s3) = init_toff_imu_to_vicon cfg"
    using p(3) by (simp add: offset_in_force_def)
  from build_loop_seeds[OF c(4) assms(2) a3 a4 a5] show ?thesis by simp
qed

lemma relin_round_feeds_bias:
  assumes "relin_round env cfg b0 s0 = Inr s1" and "build_problem env cfg False s1 = Inr s2"
    and "f \<in> set (graph s2)" and "is_imu f"
  shows "\<exists>t0 t1 st pre.
           values_result s1 (X (state_index s1 t0)) = Some (NavState st) \<and>
           propagate env t0 t1 (nav_bg st) (nav_ba st) = (True, pre) \<and>
           f = imu_factor (state_index s1 t0) (state_index s1 t1) pre"
proof -
  from assms(1) have v: "values_est s1 = values_result s1"
    by (rule relin_round_Inr) auto
  from build_problem_imu_source[OF assms(2,3,4)] obtain t0 t1 bg ba pre where
    eb: "entry_bias False (values_est s1) (X (state_index s1 t0)) = Some (bg, ba)"
    and pr: "propagate env t0 t1 bg ba = (True, pre)"
    and f: "f = imu_factor (state_index s1 t0) (state_index s1 t1) pre"
    by blast
  from eb obtain st where "values_est s1 (X (state_index s1 t0)) = Some (NavState st)"
    "bg = nav_bg st" "ba = nav_ba st"
    by (auto simp: entry_bias_def split: option.splits val.splits)
  with v pr f show ?thesis by auto
qed

text \<open>
  Claim C1. The loop of \<open>build_and_solve\<close> runs the build, solve and adopt cycle once for
  every \<open>i\<close> from 0 to \<open>num_loop_relin\<close>, in order, with \<open>init_states\<close> true exactly for
  \<open>i = 0\<close>: that is \<open>num_loop_relin + 1\<close> cycles (the counter is a C int, so the bound is
  below \<open>INT_MAX\<close>). A cycle that returns has solved the graph just built from the values
  left by that build and has adopted the result as the current values, which the next
  build reads. A build that does not initialise seeds nothing: each entry of its value
  set is the one it was given, or erased. An initialising build leaves the calibration,
  gravity and (if estimated) time-offset variables at their configured values, and (the
  stop signal never raised, the keys of the camera times distinct) the state variable of
  every surviving camera time at the initial state computed from the pose interpolated
  at that time plus the configured offset; its inertial factors are requested with zero
  biases. The inertial factors of the build that follows a cycle are requested with the
  biases of the states that the cycle adopted.
\<close>

theorem relinearization_rounds:
  assumes "num_loop_relin cfg < 2147483647"
  shows "relin_loop env cfg 0 s =
           run_rounds env cfg (map (\<lambda>i. i = 0) [0..num_loop_relin cfg]) s \<and>
         length (map (\<lambda>i. i = 0) [0..num_loop_relin cfg]) = nat (num_loop_relin cfg + 1) \<and>
         (\<forall>init_states s0 s1. relin_round env cfg init_states s0 = Inr s1 \<longrightarrow>
            (\<exists>sb. build_problem env cfg init_states s0 = Inr sb \<and>
                  values_result s1 = optimize env (graph sb) (values_est sb) \<and>
                  values_est s1 = values_result s1 \<and>
                  graph s1 = graph sb \<and> timestamp_cameras s1 = timestamp_cameras sb)) \<and>
         (\<forall>s0 sb k. build_problem env cfg False s0 = Inr sb \<longrightarrow>
            values_est sb k = None \<or> values_est sb k = values_est s0 k) \<and>
         (\<forall>s0 sb. build_problem env cfg True s0 = Inr sb \<longrightarrow>
            values_est sb (C 0) = Some (Rot3 (init_R_BtoI cfg)) \<and>
            values_est sb (C 1) = Some (Vector3 (init_p_BinI cfg)) \<and>
            values_est sb (G 0) = Some (Vector3 (init_grav_inV cfg)) \<and>
            (estimate_toff_vicon_to_imu cfg \<longrightarrow>
               values_est sb (T 0) = Some (Vector1 (init_toff_imu_to_vicon cfg)))) \<and>
         (\<forall>s0 sb. build_problem env cfg True s0 = Inr sb \<and> (\<forall>n. ros_ok env n) \<and>
              inj_on (state_index s0) (set (timestamp_cameras s0)) \<longrightarrow>
            (\<forall>t\<in>set (timestamp_cameras sb).
               \<exists>qq pp R. get_pose env (t + init_toff_imu_to_vicon cfg) = Some (qq, pp, R) \<and>
                  values_est sb (X (state_index s0 t)) =
                    Some (NavState (initial_imu_state env cfg qq pp)))) \<and>
         (\<forall>s0 sb f. build_problem env cfg True s0 = Inr sb \<and> f \<in> set (graph sb) \<and> is_imu f \<longrightarrow>
            (\<exists>t0 t1 pre.
               propagate env t0 t1 (0, 0, 0) (0, 0, 0) = (True, pre) \<and>
               f = imu_factor (state_index s0 t0) (state_index s0 t1) pre)) \<and>
         (\<forall>b0 s0 s1 s2 f.
            relin_round env cfg b0 s0 = Inr s1 \<and> build_problem env cfg False s1 = Inr s2 \<and>
            f \<in> set (graph s2) \<and> is_imu f \<longrightarrow>
            (\<exists>t0 t1 st pre.
               values_result s1 (X (state_index s1 t0)) = Some (NavState st) \<and>
               propagate env t0 t1 (nav_bg st) (nav_ba st) = (True, pre) \<and>
               f = imu_factor (state_index s1 t0) (state_index s1 t1) pre))"
proof (intro conjI allI impI)
  show "relin_loop env cfg 0 s = run_rounds env cfg (map (\<lambda>i. i = 0) [0..num_loop_relin cfg]) s"
    using assms by (rule relin_loop_rounds)
  show "length (map (\<lambda>i. i = 0) [0..num_loop_relin cfg]) = nat (num_loop_relin cfg + 1)"
    by simp
next
  fix init_states s0 s1
  assume "relin_round env cfg init_states s0 = Inr s1"
  then show "\<exists>sb. build_problem env cfg init_states s0 = Inr sb \<and>
                  values_result s1 = optimize env (graph sb) (values_est sb) \<and>
                  values_est s1 = values_result s1 \<and>
                  graph s1 = graph sb \<and> timestamp_cameras s1 = timestamp_cameras sb"
    by (rule relin_round_Inr) auto
next
  fix s0 sb k
  assume "build_problem env cfg False s0 = Inr sb"
  then show "values_est sb k = None \<or> values_est sb k = values_est s0 k"
    by (rule build_problem_no_seed)
next
  fix s0 sb
  assume b: "build_problem env cfg True s0 = Inr sb"
  from build_problem_seeds[OF b]
  show "values_est sb (C 0) = Some (Rot3 (init_R_BtoI cfg))"
    "values_est sb (C 1) = Some (Vector3 (init_p_BinI cfg))"
    "values_est sb (G 0) = Some (Vector3 (init_grav_inV cfg))"
    by simp_all
next
  fix s0 sb
  assume b: "build_problem env cfg True s0 = Inr sb" and "estimate_toff_vicon_to_imu cfg"
  with build_problem_seeds[OF b]
  show "values_est sb (T 0) = Some (Vector1 (init_toff_imu_to_vicon cfg))" by simp
next
  fix s0 sb
  assume "build_problem env cfg True s0 = Inr sb \<and> (\<forall>n. ros_ok env n) \<and>
              inj_on (state_index s0) (set (timestamp_cameras s0))"
  then show "\<forall>t\<in>set (timestamp_cameras sb).
               \<exists>qq pp R. get_pose env (t + init_toff_imu_to_vicon cfg) = Some (qq, pp, R) \<and>
                  values_est sb (X (state_index s0 t)) =
                    Some (NavState (initial_imu_state env cfg qq pp))"
    using build_problem_seeds_states by blast
next
  fix s0 sb f
  assume h: "build_problem env cfg True s0 = Inr sb \<and> f \<in> set (graph sb) \<and> is_imu f"
  then have "\<exists>t0 t1 bg ba pre us vs.
              timestamp_cameras sb = us @ t0 # t1 # vs \<and>
              entry_bias True (values_est s0) (X (state_index s0 t0)) = Some (bg, ba) \<and>
              propagate env t0 t1 bg ba = (True, pre) \<and>
              DT pre = double_minus env t1 t0 \<and>
              f = imu_factor (state_index s0 t0) (state_index s0 t1) pre"
    using build_problem_imu_source by blast
  then show "\<exists>t0 t1 pre.
               propagate env t0 t1 (0, 0, 0) (0, 0, 0) = (True, pre) \<and>
               f = imu_factor (state_index s0 t0) (state_index s0 t1) pre"
    by (auto simp: entry_bias_def)
next
  fix b0 s0 s1 s2 f
  assume "relin_round env cfg b0 s0 = Inr s1 \<and> build_problem env cfg False s1 = Inr s2 \<and>
            f \<in> set (graph s2) \<and> is_imu f"
  then show "\<exists>t0 t1 st pre.
               values_result s1 (X (state_index s1 t0)) = Some (NavState st) \<and>
               propagate env t0 t1 (nav_bg st) (nav_ba st) = (True, pre) \<and>
               f = imu_factor (state_index s1 t0) (state_index s1 t1) pre"
    using relin_round_feeds_bias by blast
qed

theorem relinearization_rounds_witness:
  "num_loop_relin (demo_cfg\<lparr>num_loop_relin := 2\<rparr>) < 2147483647 \<and>
   relin_loop demo_env (demo_cfg\<lparr>num_loop_relin := 2\<rparr>) 0 (indexed_solver [1, 2]) =
     run_rounds demo_env (demo_cfg\<lparr>num_loop_relin := 2\<rparr>) [True, False, False] (indexed_solver [1, 2]) \<and>
   \<not> isl (relin_loop demo_env (demo_cfg\<lparr>num_loop_relin := 2\<rparr>) 0 (indexed_solver [1, 2])) \<and>
   \<not> isl (build_problem demo_env (demo_cfg\<lparr>num_loop_relin := 2\<rparr>) True (indexed_solver [1, 2])) \<and>
   (\<forall>n. ros_ok demo_env n) \<and>
   inj_on (state_index (indexed_solver [1, 2])) (set (timestamp_cameras (indexed_solver [1, 2]))) \<and>
   2 \<in> set (timestamp_cameras
     (projr (build_problem demo_env (demo_cfg\<lparr>num_loop_relin := 2\<rparr>) True (indexed_solver [1, 2])))) \<and>
   values_est
     (projr (build_problem demo_env (demo_cfg\<lparr>num_loop_relin := 2\<rparr>) True (indexed_solver [1, 2])))
     (X 1) =
     Some (NavState (initial_imu_state demo_env (demo_cfg\<lparr>num_loop_relin := 2\<rparr>)
                       (0, 0, 0, 1) (2, 0, 0))) \<and>
   \<not> isl (relin_round demo_env (demo_cfg\<lparr>num_loop_relin := 2\<rparr>) True (indexed_solver [1, 2])) \<and>
   \<not> isl (build_problem demo_env (demo_cfg\<lparr>num_loop_relin := 2\<rparr>) False
            (projr (relin_round demo_env (demo_cfg\<lparr>num_loop_relin := 2\<rparr>) True
                      (indexed_solver [1, 2])))) \<and>
   imu_factor 0 1 (demo_preint 1 0) \<in> set (graph
     (projr (build_problem demo_env (demo_cfg\<lparr>num_loop_relin := 2\<rparr>) False
        (projr (relin_round demo_env (demo_cfg\<lparr>num_loop_relin := 2\<rparr>) True
                  (indexed_solver [1, 2])))))) \<and>
   (\<exists>t0 t1 st pre.
      values_result
        (projr (relin_round demo_env (demo_cfg\<lparr>num_loop_relin := 2\<rparr>) True (indexed_solver [1, 2])))
        (X (state_index
              (projr (relin_round demo_env (demo_cfg\<lparr>num_loop_relin := 2\<rparr>) True
                        (indexed_solver [1, 2]))) t0)) = Some (NavState st) \<and>
      propagate demo_env t0 t1 (nav_bg st) (nav_ba st) = (True, pre) \<and>
      imu_factor 0 1 (demo_preint 1 0) =
        imu_factor
          (state_index
             (projr (relin_round demo_env (demo_cfg\<lparr>num_loop_relin := 2\<rparr>) True
                       (indexed_solver [1, 2]))) t0)
          (state_index
             (projr (relin_round demo_env (demo_cfg\<lparr>num_loop_relin := 2\<rparr>) True
                       (indexed_solver [1, 2]))) t1) pre)"
proof -
  let ?cfg = "demo_cfg\<lparr>num_loop_relin := 2\<rparr>"
  let ?s = "indexed_solver [1, 2]"
  let ?b = "build_problem demo_env ?cfg True ?s"
  have n: "num_loop_relin ?cfg < 2147483647" by simp
  have u: "[0..2::int] = [0, 1, 2]" by (simp add: upto_rec1)
  have ok: "\<not> isl (relin_loop demo_env ?cfg 0 ?s)"
    by (simp add: demo_defs indexed_solver_def model_defs relin_loop.simps Let_def)
  have bok: "\<not> isl ?b"
    by (simp add: demo_defs indexed_solver_def model_defs Let_def)
  then have e: "?b = Inr (projr ?b)" by (cases ?b) simp_all
  have r: "\<forall>n. ros_ok demo_env n" by (simp add: demo_env_def)
  have i1: "state_index ?s 1 = 0" and i2: "state_index ?s 2 = 1"
    by (simp_all add: state_index_def indexed_solver_def)
  have inj: "inj_on (state_index ?s) (set (timestamp_cameras ?s))"
    using i1 i2 by (simp add: indexed_solver_def fresh_solver_def)
  have m: "2 \<in> set (timestamp_cameras (projr ?b))"
    by (simp add: demo_defs indexed_solver_def model_defs Let_def)
  have gp: "get_pose demo_env (2 + init_toff_imu_to_vicon ?cfg) = Some ((0, 0, 0, 1), (2, 0, 0), 0)"
    by (simp add: demo_defs)
  note t = relinearization_rounds[OF n, of demo_env ?s]
  from t u have a: "relin_loop demo_env ?cfg 0 ?s =
     run_rounds demo_env ?cfg [True, False, False] ?s" by simp
  from t e r inj m have
    "\<exists>qq pp R. get_pose demo_env (2 + init_toff_imu_to_vicon ?cfg) = Some (qq, pp, R) \<and>
        values_est (projr ?b) (X (state_index ?s 2)) =
          Some (NavState (initial_imu_state demo_env ?cfg qq pp))"
    by blast
  with gp i2 have sd: "values_est (projr ?b) (X 1) =
     Some (NavState (initial_imu_state demo_env ?cfg (0, 0, 0, 1) (2, 0, 0)))"
    by auto
  let ?r1 = "relin_round demo_env ?cfg True ?s"
  let ?b2 = "build_problem demo_env ?cfg False (projr ?r1)"
  have rok: "\<not> isl ?r1"
    by (simp add: demo_defs indexed_solver_def model_defs Let_def)
  then have e1: "?r1 = Inr (projr ?r1)" by (cases ?r1) simp_all
  have b2ok: "\<not> isl ?b2"
    by (simp add: demo_defs indexed_solver_def model_defs Let_def)
  then have e2: "?b2 = Inr (projr ?b2)" by (cases ?b2) simp_all
  have g: "imu_factor 0 1 (demo_preint 1 0) \<in> set (graph (projr ?b2))"
    by (simp add: demo_defs indexed_solver_def model_defs Let_def imu_factor_def)
  have i: "is_imu (imu_factor 0 1 (demo_preint 1 0) :: nat factor)"
    by (simp add: imu_factor_def)
  from t e1 e2 g i have fd: "\<exists>t0 t1 st pre.
      values_result (projr ?r1) (X (state_index (projr ?r1) t0)) = Some (NavState st) \<and>
      propagate demo_env t0 t1 (nav_bg st) (nav_ba st) = (True, pre) \<and>
      imu_factor 0 1 (demo_preint 1 0) =
        imu_factor (state_index (projr ?r1) t0) (state_index (projr ?r1) t1) pre"
    by blast
  from n a ok bok r inj m sd rok b2ok g fd show ?thesis by blast
qed

end
